theory Spec2Isabelle
  imports Main "HOL-Library.Monad_Syntax" "HOL-Library.Multiset"
begin

section \<open>JavaScript values used by the registry generator\<close>

text \<open>
  A JavaScript object used as a dictionary (\<^verbatim>\<open>Record<string, V>\<close>) is an association list
  in the order in which \<^verbatim>\<open>Object.keys\<close> and \<^verbatim>\<open>Object.entries\<close> enumerate it. Assigning to
  a key that is present replaces the value in place, assigning to a new key appends it.
  An optional field is an \<open>option\<close>. A thrown exception is the value \<open>None\<close> of the
  function that throws. Keys that are canonical array indices, which JavaScript enumerates
  first and in numeric order, do not occur among the names of props, variant options,
  components and categories. Neither do the names of the members of \<^verbatim>\<open>Object.prototype\<close>,
  such as \<^verbatim>\<open>constructor\<close> and \<^verbatim>\<open>toString\<close>, which a lookup and the test \<^verbatim>\<open>in\<close> find on every
  object: \<open>obj_get\<close> and \<open>obj_has\<close> see the keys of the object itself.
\<close>

type_synonym 'v obj = "(string \<times> 'v) list"

fun obj_set :: "'v obj \<Rightarrow> string \<Rightarrow> 'v \<Rightarrow> 'v obj" where
  "obj_set [] k v = [(k, v)]"
| "obj_set ((k', v') # rest) k v =
     (if k' = k then (k, v) # rest else (k', v') # obj_set rest k v)"

definition obj_get :: "'v obj \<Rightarrow> string \<Rightarrow> 'v option" where
  "obj_get ob k = map_of ob k"

definition obj_has :: "string \<Rightarrow> 'v obj \<Rightarrow> bool" where
  "obj_has k ob = (k \<in> set (map fst ob))"

definition obj_keys :: "'v obj \<Rightarrow> string list" where
  "obj_keys ob = map fst ob"

text \<open>The spread \<^verbatim>\<open>{ ...a, ...b }\<close>: the entries of \<open>a\<close>, then each entry of \<open>b\<close> assigned in turn.\<close>

definition obj_spread :: "'v obj \<Rightarrow> 'v obj \<Rightarrow> 'v obj" where
  "obj_spread a b = foldl (\<lambda>acc (k, v). obj_set acc k v) a b"

text \<open>Truthiness of an optional string: \<^verbatim>\<open>undefined\<close> and the empty string are falsy.\<close>

fun truthy :: "string option \<Rightarrow> bool" where
  "truthy None = False"
| "truthy (Some s) = (s \<noteq> [])"

fun starts_with :: "string \<Rightarrow> string \<Rightarrow> bool" where
  "starts_with s [] = True"
| "starts_with [] (c # cs) = False"
| "starts_with (x # xs) (c # cs) = (x = c \<and> starts_with xs cs)"

text \<open>\<^verbatim>\<open>s.str_includes(t)\<close>\<close>

fun str_includes :: "string \<Rightarrow> string \<Rightarrow> bool" where
  "str_includes [] t = (t = [])"
| "str_includes (x # xs) t = (starts_with (x # xs) t \<or> str_includes xs t)"

text \<open>\<^verbatim>\<open>xs.join(sep)\<close>\<close>

fun join :: "string list \<Rightarrow> string \<Rightarrow> string" where
  "join [] sep = []"
| "join [x] sep = x"
| "join (x # y # ys) sep = x @ sep @ join (y # ys) sep"

text \<open>\<^verbatim>\<open>s.split("/").pop()\<close>: the text after the last slash.\<close>

definition last_segment :: "string \<Rightarrow> string" where
  "last_segment s = rev (takeWhile (\<lambda>c. c \<noteq> CHR ''/'') (rev s))"

text \<open>\<^verbatim>\<open>a || b\<close> on strings.\<close>

definition or_else :: "string \<Rightarrow> string \<Rightarrow> string" where
  "or_else a b = (if a = [] then b else a)"

section \<open>JSON Schema definitions\<close>

text \<open>
  The fields of a \<^verbatim>\<open>Definition\<close> of ts-json-schema-generator that the generator reads.
  \<^verbatim>\<open>type\<close> is a string or an array of strings.
\<close>

datatype js_type = TypeName string | TypeNames "string list"

datatype Definition = Definition
  (d_ref: "string option")
  (d_enum: "string list option")
  (d_type: "js_type option")
  (d_items: "Definition option")
  (d_anyOf: "Definition list option")
  (d_oneOf: "Definition list option")
  (d_allOf: "Definition list option")
  (d_properties: "(string \<times> Definition) list option")
  (d_required: "string list option")
  (d_description: "string option")

text \<open>
  \<^verbatim>\<open>decodeURIComponent\<close> belongs to the runtime; it throws \<^verbatim>\<open>URIError\<close> on a malformed
  escape sequence. It is a parameter \<open>dec\<close>, \<open>None\<close> where it throws.
\<close>

type_synonym decoder = "string \<Rightarrow> string option"

text \<open>The tail of the union branch of \<^verbatim>\<open>jsonSchemaTypeToString\<close>, on the members' strings.\<close>

definition union_type_string :: "string list \<Rightarrow> string" where
  "union_type_string strs =
     (let typeStrings = filter (\<lambda>s. s \<noteq> ''undefined'' \<and> s \<noteq> ''null'') strs
      in if list_ex (\<lambda>s. str_includes s ''React'') typeStrings then ''ReactNode''
         else join typeStrings '' | '')"

definition plain_type_string :: "js_type option \<Rightarrow> string" where
  "plain_type_string t =
     (case t of
        Some (TypeNames ns) \<Rightarrow> join ns '' | ''
      | Some (TypeName n) \<Rightarrow> (if n = [] then ''unknown'' else n)
      | None \<Rightarrow> ''unknown'')"

fun jsonSchemaTypeToString :: "decoder \<Rightarrow> Definition \<Rightarrow> string option" where
  "jsonSchemaTypeToString dec (Definition r e t i a o' al p rq ds) =
     (if truthy r then
        do {
          refName \<leftarrow> dec (or_else (last_segment (the r)) ''unknown'');
          Some (if str_includes refName ''ReactNode'' \<or> str_includes refName ''ReactElement''
                then ''ReactNode'' else refName)
        }
      else if e \<noteq> None then Some ''enum''
      else if t = Some (TypeName ''array'') then
        (case i of
           Some it \<Rightarrow> map_option (\<lambda>itemType. itemType @ ''[]'') (jsonSchemaTypeToString dec it)
         | None \<Rightarrow> Some (''unknown'' @ ''[]''))
      else
        (case a of
           Some ts \<Rightarrow> map_option union_type_string (those (map (jsonSchemaTypeToString dec) ts))
         | None \<Rightarrow>
            (case o' of
               Some ts \<Rightarrow> map_option union_type_string (those (map (jsonSchemaTypeToString dec) ts))
             | None \<Rightarrow> Some (plain_type_string t))))"

text \<open>
  \<^verbatim>\<open>resolveRef\<close>: follow a \<^verbatim>\<open>$ref\<close> one step through the schema's definitions; the definition
  itself when there is no \<^verbatim>\<open>$ref\<close>, no table, or no entry under the decoded name.
\<close>

definition resolveRef :: "decoder \<Rightarrow> Definition \<Rightarrow> Definition obj option \<Rightarrow> Definition option" where
  "resolveRef dec def allDefinitions =
     (case allDefinitions of
        None \<Rightarrow> Some def
      | Some defs \<Rightarrow>
          if \<not> truthy (d_ref def) then Some def
          else do {
            refName \<leftarrow> dec (or_else (last_segment (the (d_ref def))) []);
            Some (case obj_get defs refName of Some resolved \<Rightarrow> resolved | None \<Rightarrow> def)
          })"

section \<open>Property schemas and variant enrichment\<close>

record PropSchema =
  p_type :: string
  p_required :: "bool option"
  p_optional :: "bool option"
  p_description :: "string option"
  p_values :: "string list option"
  p_descriptions :: "string obj option"
  p_classes :: "string obj option"
  p_stateClasses :: "string obj obj option"
  p_default :: "string option"

text \<open>One option of a variant table, as in \<^verbatim>\<open>KUMO_SURFACE_VARIANTS.color.primary\<close>.\<close>

record VariantOption =
  v_description :: "string option"
  v_classes :: "string option"
  v_stateClasses :: "string obj option"

type_synonym variant_table = "VariantOption obj"

record variant_maps =
  descriptions :: "string obj"
  classes :: "string obj"
  stateClassesMap :: "string obj obj"

text \<open>The body of the loop over \<^verbatim>\<open>Object.entries(variantDef)\<close>.\<close>

definition collect_option :: "variant_maps \<Rightarrow> string \<times> VariantOption \<Rightarrow> variant_maps" where
  "collect_option m kv =
     (let key = fst kv; val = snd kv;
          m1 = (if truthy (v_description val)
                then m\<lparr>descriptions := obj_set (descriptions m) key (the (v_description val))\<rparr>
                else m);
          m2 = (if truthy (v_classes val)
                then m1\<lparr>classes := obj_set (classes m1) key (the (v_classes val))\<rparr>
                else m1)
      in (case v_stateClasses val of
            Some sc \<Rightarrow> m2\<lparr>stateClassesMap := obj_set (stateClassesMap m2) key sc\<rparr>
          | None \<Rightarrow> m2))"

definition collect_options :: "variant_table \<Rightarrow> variant_maps" where
  "collect_options variantDef =
     foldl collect_option \<lparr>descriptions = [], classes = [], stateClassesMap = []\<rparr> variantDef"

text \<open>The block \<^verbatim>\<open>if (variants && propName in variants) { ... }\<close> for the table found.\<close>

definition enrich_variant :: "PropSchema \<Rightarrow> variant_table \<Rightarrow> PropSchema" where
  "enrich_variant prop variantDef =
     (let prop1 = prop\<lparr>p_values := Some (obj_keys variantDef), p_type := ''enum''\<rparr>;
          m = collect_options variantDef;
          prop2 = (if descriptions m \<noteq> [] then prop1\<lparr>p_descriptions := Some (descriptions m)\<rparr>
                   else prop1);
          prop3 = (if classes m \<noteq> [] then prop2\<lparr>p_classes := Some (classes m)\<rparr> else prop2)
      in if stateClassesMap m \<noteq> [] then prop3\<lparr>p_stateClasses := Some (stateClassesMap m)\<rparr>
         else prop3)"

text \<open>The steps of \<^verbatim>\<open>convertToPropSchema\<close>, one definition for each block of the source.\<close>

definition initial_prop :: "string \<Rightarrow> bool \<Rightarrow> Definition \<Rightarrow> PropSchema" where
  "initial_prop t required def =
     (let prop = \<lparr>p_type = t, p_required = None, p_optional = None, p_description = None,
                   p_values = None, p_descriptions = None, p_classes = None,
                   p_stateClasses = None, p_default = None\<rparr>;
          prop = (if required then prop\<lparr>p_required := Some True\<rparr>
                  else prop\<lparr>p_optional := Some True\<rparr>)
      in if truthy (d_description def) then prop\<lparr>p_description := d_description def\<rparr> else prop)"

definition apply_enum :: "PropSchema \<Rightarrow> Definition \<Rightarrow> Definition \<Rightarrow> PropSchema" where
  "apply_enum prop def resolvedDef =
     (case d_enum def of
        Some vs \<Rightarrow> prop\<lparr>p_values := Some vs, p_type := ''enum''\<rparr>
      | None \<Rightarrow>
         (case d_enum resolvedDef of
            Some vs \<Rightarrow> prop\<lparr>p_values := Some vs, p_type := ''enum''\<rparr>
          | None \<Rightarrow> prop))"

definition apply_variants :: "PropSchema \<Rightarrow> string \<Rightarrow> variant_table obj option \<Rightarrow> PropSchema" where
  "apply_variants prop propName variants =
     (case variants of
        None \<Rightarrow> prop
      | Some vts \<Rightarrow>
         (case obj_get vts propName of
            Some variantDef \<Rightarrow> enrich_variant prop variantDef
          | None \<Rightarrow> prop))"

definition apply_default :: "PropSchema \<Rightarrow> string \<Rightarrow> string obj option \<Rightarrow> PropSchema" where
  "apply_default prop propName defaults =
     (case defaults of
        None \<Rightarrow> prop
      | Some ds \<Rightarrow>
         (case obj_get ds propName of
            Some d \<Rightarrow> prop\<lparr>p_default := Some d\<rparr>
          | None \<Rightarrow> prop))"

definition convertToPropSchema ::
  "decoder \<Rightarrow> string \<Rightarrow> Definition \<Rightarrow> bool \<Rightarrow> variant_table obj option \<Rightarrow> string obj option
     \<Rightarrow> Definition obj option \<Rightarrow> PropSchema option" where
  "convertToPropSchema dec propName def required variants defaults allDefinitions =
     do {
       resolvedDef \<leftarrow> resolveRef dec def allDefinitions;
       t \<leftarrow> jsonSchemaTypeToString dec def;
       let prop = initial_prop t required def;
       let prop = apply_enum prop def resolvedDef;
       let prop = apply_variants prop propName variants;
       let prop = apply_default prop propName defaults;
       Some prop
     }"

section \<open>Component configurations and the collaborators of the generator\<close>

record CLIFlags =
  includeInheritedProps :: bool
  noCache :: bool
  verbose :: bool

text \<open>Styling metadata is passed through unread.\<close>

type_synonym Styling = "string obj"

record ComponentConfig =
  c_name :: string
  c_propsType :: "string option"
  c_sourceFile :: string
  c_sourceDir :: string
  c_dirName :: string
  c_category :: string
  c_type :: string
  c_description :: string
  c_variants :: "variant_table obj"
  c_defaults :: "string obj"
  c_examples :: "string list option"
  c_styling :: "Styling option"
  c_baseStyles :: "string option"

text \<open>The schema that \<^verbatim>\<open>createSchema\<close> of ts-json-schema-generator returns.\<close>

record Schema =
  definitions :: "Definition obj option"

text \<open>\<^verbatim>\<open>schema.definitions?.[name]\<close>\<close>

definition lookup_definition :: "Definition obj option \<Rightarrow> string \<Rightarrow> Definition option" where
  "lookup_definition defs n = (case defs of None \<Rightarrow> None | Some ds \<Rightarrow> obj_get ds n)"

text \<open>
  \<^verbatim>\<open>join\<close> of \<^verbatim>\<open>node:path\<close> on POSIX paths: the arguments that are not empty are joined with
  a slash and the result is normalised. Normalising drops empty and \<^verbatim>\<open>.\<close> segments, lets
  \<^verbatim>\<open>..\<close> remove the segment before it (keeping it only in front of a relative path), and
  keeps a leading and a trailing slash.
\<close>

fun split_path :: "string \<Rightarrow> string list" where
  "split_path [] = [[]]"
| "split_path (c # cs) =
     (if c = CHR ''/'' then [] # split_path cs
      else (case split_path cs of
              seg # segs \<Rightarrow> (c # seg) # segs
            | [] \<Rightarrow> [[c]]))"

text \<open>The kept segments are held last first.\<close>

fun normalize_segments :: "bool \<Rightarrow> string list \<Rightarrow> string list \<Rightarrow> string list" where
  "normalize_segments allowAboveRoot [] kept = rev kept"
| "normalize_segments allowAboveRoot (seg # rest) kept =
     (if seg = [] \<or> seg = ''.'' then normalize_segments allowAboveRoot rest kept
      else if seg = ''..'' then
        (case kept of
           k # ks \<Rightarrow>
             if k \<noteq> ''..'' then normalize_segments allowAboveRoot rest ks
             else if allowAboveRoot then normalize_segments allowAboveRoot rest (''..'' # kept)
             else normalize_segments allowAboveRoot rest kept
         | [] \<Rightarrow>
             if allowAboveRoot then normalize_segments allowAboveRoot rest [''..'']
             else normalize_segments allowAboveRoot rest [])
      else normalize_segments allowAboveRoot rest (seg # kept))"

definition normalize_path :: "string \<Rightarrow> string" where
  "normalize_path path =
     (if path = [] then ''.''
      else
        (let isAbsolute = (hd path = CHR ''/'');
             trailingSeparator = (last path = CHR ''/'');
             normal = join (normalize_segments (\<not> isAbsolute) (split_path path) []) ''/''
         in if normal = [] then (if isAbsolute then ''/'' else if trailingSeparator then ''./'' else ''.'')
            else (if isAbsolute then ''/'' else []) @ normal
                   @ (if trailingSeparator then ''/'' else [])))"

definition join_paths :: "string list \<Rightarrow> string" where
  "join_paths args =
     (let parts = filter (\<lambda>arg. arg \<noteq> []) args
      in if parts = [] then ''.'' else normalize_path (join parts ''/''))"

definition path_join :: "string \<Rightarrow> string \<Rightarrow> string" where
  "path_join a b = join_paths [a, b]"

definition getPropsType :: "ComponentConfig \<Rightarrow> string" where
  "getPropsType config = (case c_propsType config of Some t \<Rightarrow> t | None \<Rightarrow> c_name config @ ''Props'')"

definition getSourceFile :: "ComponentConfig \<Rightarrow> string" where
  "getSourceFile config = c_sourceFile config"

section \<open>Props from TypeScript types\<close>

text \<open>
  The loop that follows a chain of \<^verbatim>\<open>$ref\<close>s from the main definition. A chain that
  returns to itself never ends: the loop is a partial function, \<open>None\<close> where it does not
  return. Inside, \<open>Some None\<close> is the exception of \<^verbatim>\<open>decodeURIComponent\<close>.
\<close>

partial_function (option) follow_ref_chain ::
  "decoder \<Rightarrow> Definition obj option \<Rightarrow> Definition \<Rightarrow> Definition option option" where
  "follow_ref_chain dec defs mainDef =
     (if truthy (d_ref mainDef) \<and> d_properties mainDef = None \<and> d_allOf mainDef = None
         \<and> d_anyOf mainDef = None \<and> d_oneOf mainDef = None
      then (case dec (last_segment (the (d_ref mainDef))) of
              None \<Rightarrow> Some None
            | Some refName \<Rightarrow>
               (case lookup_definition defs refName of
                  None \<Rightarrow> Some (Some mainDef)
                | Some refDef \<Rightarrow> follow_ref_chain dec defs refDef))
      else Some (Some mainDef))"

text \<open>
  \<^verbatim>\<open>collectFromParts\<close>, with the two accumulators of its loop as arguments. \<open>None\<close> is an
  exception: of \<^verbatim>\<open>decodeURIComponent\<close>, or the stack overflow of a recursion through
  \<^verbatim>\<open>allOf\<close> that returns to itself.
\<close>

partial_function (option) collect_loop ::
  "decoder \<Rightarrow> Definition obj option \<Rightarrow> Definition list \<Rightarrow> Definition obj \<Rightarrow> string list
     \<Rightarrow> (Definition obj \<times> string list) option" where
  "collect_loop dec defs parts properties required =
     (case parts of
        [] \<Rightarrow> Some (properties, required)
      | part # rest \<Rightarrow>
          if truthy (d_ref part) then
            do {
              refName \<leftarrow> dec (last_segment (the (d_ref part)));
              (case lookup_definition defs refName of
                 None \<Rightarrow> collect_loop dec defs rest properties required
               | Some refDef \<Rightarrow>
                   let properties1 = (case d_properties refDef of
                                        Some ps \<Rightarrow> obj_spread properties ps | None \<Rightarrow> properties);
                       required1 = (case d_required refDef of
                                      Some rs \<Rightarrow> required @ rs | None \<Rightarrow> required)
                   in (case d_allOf refDef of
                         Some nestedParts \<Rightarrow>
                           do {
                             nested \<leftarrow> collect_loop dec defs nestedParts [] [];
                             collect_loop dec defs rest (obj_spread properties1 (fst nested))
                               (required1 @ snd nested)
                           }
                       | None \<Rightarrow> collect_loop dec defs rest properties1 required1))
            }
          else
            (case d_properties part of
               Some ps \<Rightarrow>
                 collect_loop dec defs rest (obj_spread properties ps)
                   (case d_required part of Some rs \<Rightarrow> required @ rs | None \<Rightarrow> required)
             | None \<Rightarrow> collect_loop dec defs rest properties required))"

definition collectFromParts ::
  "decoder \<Rightarrow> Definition obj option \<Rightarrow> Definition list \<Rightarrow> (Definition obj \<times> string list) option" where
  "collectFromParts dec defs parts = collect_loop dec defs parts [] []"

text \<open>
  What the reader takes from outside: the schema generator (\<open>None\<close> where
  \<^verbatim>\<open>createGenerator(...).createSchema(...)\<close> throws), the runtime's
  \<^verbatim>\<open>decodeURIComponent\<close>, the filter \<^verbatim>\<open>shouldSkipProp\<close> and the command-line flags.
\<close>

record reader_env =
  createSchema :: "string \<Rightarrow> string \<Rightarrow> Schema option"
  decodeURIComponent :: decoder
  shouldSkipProp :: "string \<Rightarrow> CLIFlags \<Rightarrow> bool"
  CLI_FLAGS :: CLIFlags

text \<open>The union branch: every member collected on its own, then merged.\<close>

definition merge_union ::
  "decoder \<Rightarrow> Definition obj option \<Rightarrow> Definition list \<Rightarrow> (Definition obj \<times> string list) option" where
  "merge_union dec defs unionMembers =
     do {
       memberProps \<leftarrow> those (map (\<lambda>member. collectFromParts dec defs [member]) unionMembers);
       let allProperties = foldl (\<lambda>acc mp. obj_spread acc (fst mp)) [] memberProps;
       let allPropNames = obj_keys allProperties;
       Some (allProperties,
             filter (\<lambda>prop. list_all (\<lambda>mp. prop \<in> set (snd mp)) memberProps) allPropNames)
     }"

text \<open>The properties and the required names of the main definition.\<close>

definition collect_main ::
  "decoder \<Rightarrow> Definition obj option \<Rightarrow> Definition \<Rightarrow> (Definition obj \<times> string list) option" where
  "collect_main dec defs mainDef =
     (case d_allOf mainDef of
        Some parts \<Rightarrow> collectFromParts dec defs parts
      | None \<Rightarrow>
         (case d_anyOf mainDef of
            Some members \<Rightarrow> merge_union dec defs members
          | None \<Rightarrow>
             (case d_oneOf mainDef of
                Some members \<Rightarrow> merge_union dec defs members
              | None \<Rightarrow>
                 (case d_properties mainDef of
                    Some ps \<Rightarrow> Some (ps, (case d_required mainDef of Some rs \<Rightarrow> rs | None \<Rightarrow> []))
                  | None \<Rightarrow> Some ([], [])))))"

text \<open>The loop \<^verbatim>\<open>for (const [propName, propDef] of Object.entries(allProperties))\<close>.\<close>

fun convert_properties ::
  "'a reader_env_scheme \<Rightarrow> ComponentConfig \<Rightarrow> Definition obj option \<Rightarrow> string list
     \<Rightarrow> Definition obj \<Rightarrow> PropSchema obj \<Rightarrow> PropSchema obj option" where
  "convert_properties env config defs allRequired [] props = Some props"
| "convert_properties env config defs allRequired ((propName, propDef) # rest) props =
     (if shouldSkipProp env propName (CLI_FLAGS env)
      then convert_properties env config defs allRequired rest props
      else do {
        prop \<leftarrow> convertToPropSchema (decodeURIComponent env) propName propDef
                  (propName \<in> set allRequired) (Some (c_variants config))
                  (Some (c_defaults config)) defs;
        convert_properties env config defs allRequired rest (obj_set props propName prop)
      })"

text \<open>
  The body of \<^verbatim>\<open>try\<close> in \<^verbatim>\<open>generatePropsFromType\<close>: \<open>None\<close> when it does not return,
  \<open>Some None\<close> when it throws, \<open>Some (Some props)\<close> when it returns \<open>props\<close>.
\<close>

definition try_generate :: "'a reader_env_scheme \<Rightarrow> ComponentConfig \<Rightarrow> PropSchema obj option option" where
  "try_generate env config =
     (let propsType = getPropsType config;
          sourcePath = path_join (c_sourceDir config) (getSourceFile config)
      in case createSchema env sourcePath propsType of
           None \<Rightarrow> Some None
         | Some schema \<Rightarrow>
            (case lookup_definition (definitions schema) propsType of
               None \<Rightarrow> Some (Some [])
             | Some mainDef0 \<Rightarrow>
                (case follow_ref_chain (decodeURIComponent env) (definitions schema) mainDef0 of
                   None \<Rightarrow> None
                 | Some None \<Rightarrow> Some None
                 | Some (Some mainDef) \<Rightarrow>
                     Some (do {
                       collected \<leftarrow> collect_main (decodeURIComponent env) (definitions schema) mainDef;
                       convert_properties env config (definitions schema) (snd collected)
                         (fst collected) []
                     }))))"

text \<open>\<^verbatim>\<open>generatePropsFromVariantsOnly\<close>: the fallback when the schema generator fails.\<close>

definition variant_descriptions :: "variant_table \<Rightarrow> string obj" where
  "variant_descriptions variantDef =
     foldl (\<lambda>ds kv. if truthy (v_description (snd kv))
                     then obj_set ds (fst kv) (the (v_description (snd kv))) else ds) [] variantDef"

definition variant_only_prop :: "ComponentConfig \<Rightarrow> string \<Rightarrow> variant_table \<Rightarrow> PropSchema" where
  "variant_only_prop config propName variantDef =
     \<lparr>p_type = ''enum'', p_required = None, p_optional = None, p_description = None,
      p_values = Some (obj_keys variantDef),
      p_descriptions = (if variant_descriptions variantDef \<noteq> []
                        then Some (variant_descriptions variantDef) else None),
      p_classes = None, p_stateClasses = None,
      p_default = (if truthy (obj_get (c_defaults config) propName)
                   then obj_get (c_defaults config) propName else None)\<rparr>"

definition plain_prop :: "string \<Rightarrow> string \<Rightarrow> PropSchema" where
  "plain_prop t d =
     \<lparr>p_type = t, p_required = None, p_optional = None, p_description = Some d,
      p_values = None, p_descriptions = None, p_classes = None, p_stateClasses = None,
      p_default = None\<rparr>"

definition generatePropsFromVariantsOnly :: "ComponentConfig \<Rightarrow> PropSchema obj" where
  "generatePropsFromVariantsOnly config =
     (let props = foldl (\<lambda>props kv. obj_set props (fst kv) (variant_only_prop config (fst kv) (snd kv)))
                    [] (c_variants config);
          props = obj_set props ''className'' (plain_prop ''string'' ''Additional CSS classes'')
      in obj_set props ''children'' (plain_prop ''ReactNode'' ''Child elements''))"

text \<open>
  \<^verbatim>\<open>generatePropsFromType\<close>: the \<^verbatim>\<open>catch\<close> turns every exception of the body into the
  fallback, so the function either does not return (\<open>None\<close>) or returns a props map.
\<close>

definition generatePropsFromType :: "'a reader_env_scheme \<Rightarrow> ComponentConfig \<Rightarrow> PropSchema obj option" where
  "generatePropsFromType env config =
     (case try_generate env config of
        None \<Rightarrow> None
      | Some None \<Rightarrow> Some (generatePropsFromVariantsOnly config)
      | Some (Some props) \<Rightarrow> Some props)"

section \<open>Component schemas, the cache and the collaborators of a build\<close>

record DetectedSubComponent =
  s_name :: string
  s_description :: "string option"
  s_isPassThrough :: bool
  s_baseComponent :: "string option"

record PassthroughDoc =
  pd_description :: string
  pd_props :: "PropSchema obj"
  pd_usageExamples :: "string list option"
  pd_renderElement :: "string option"

record SubComponentSchema =
  sc_name :: string
  sc_description :: "string option"
  sc_props :: "PropSchema obj"
  sc_isPassThrough :: "bool option"
  sc_baseComponent :: "string option"
  sc_usageExamples :: "string list option"
  sc_renderElement :: "string option"

record ComponentSchema =
  cs_name :: string
  cs_type :: string
  cs_description :: string
  cs_importPath :: string
  cs_category :: string
  cs_props :: "PropSchema obj"
  cs_examples :: "string list"
  cs_colors :: "string list"
  cs_baseStyles :: "string option"
  cs_subComponents :: "SubComponentSchema obj option"
  cs_styling :: "Styling option"

record CacheEntry =
  componentName :: string
  sourceHash :: string
  storyHash :: string
  cacheVersion :: nat
  generatedAt :: nat
  metadata :: ComponentSchema

record CacheFile =
  cf_version :: nat
  cf_entries :: "CacheEntry obj"

record ProcessComponentResult =
  r_name :: string
  r_category :: string
  r_schema :: ComponentSchema
  r_colors :: "string list"
  r_cached :: bool
  r_cacheEntry :: CacheEntry

text \<open>
  What a build takes from outside, besides the reader's collaborators: the helpers of the
  modules \<^verbatim>\<open>cache\<close>, \<^verbatim>\<open>utils\<close> and \<^verbatim>\<open>sub-components\<close>, the tables of the module \<^verbatim>\<open>metadata\<close>,
  the clock, and \<^verbatim>\<open>String.prototype.localeCompare\<close> of the runtime.
\<close>

record env = reader_env +
  CACHE_VERSION :: nat
  hashFileContent :: "string \<Rightarrow> string"
  createCacheEntry :: "string \<Rightarrow> string \<Rightarrow> string \<Rightarrow> ComponentSchema \<Rightarrow> CacheEntry"
  date_now :: nat
  extractSemanticColors :: "string \<Rightarrow> string list"
  detectSubComponents :: "string \<Rightarrow> DetectedSubComponent list"
  extractSubComponentProps :: "string \<Rightarrow> DetectedSubComponent \<Rightarrow> CLIFlags \<Rightarrow> PropSchema obj"
  toScreamingSnakeCase :: "string \<Rightarrow> string"
  extractBlockDependencies :: "string \<Rightarrow> string list"
  getBlockFiles :: "string \<Rightarrow> string \<Rightarrow> string list"
  PASSTHROUGH_COMPONENT_DOCS :: "PassthroughDoc obj"
  ADDITIONAL_COMPONENT_PROPS :: "PropSchema obj obj"
  PROP_TYPE_OVERRIDES :: "string obj obj"
  COMPONENT_STYLING_METADATA :: "Styling obj"
  localeCompare :: "string \<Rightarrow> string \<Rightarrow> int"

section \<open>The cache layer\<close>

text \<open>
  Modelled from the spec: \<^verbatim>\<open>isValid\<close> of the module \<^verbatim>\<open>cache\<close>, which is not among the
  sources. An entry is valid when its version is the current one and both stored hashes
  are the hashes just computed.
\<close>

definition isValid :: "CacheEntry \<Rightarrow> string \<Rightarrow> string \<Rightarrow> nat \<Rightarrow> bool" where
  "isValid entry srcHash stHash currentVersion =
     (cacheVersion entry = currentVersion \<and> sourceHash entry = srcHash \<and> storyHash entry = stHash)"

text \<open>
  Modelled from the spec: \<^verbatim>\<open>getCachedComponent\<close> of the module \<^verbatim>\<open>cache\<close>, which is not
  among the sources. The forced mode \<^verbatim>\<open>--no-cache\<close> bypasses the lookup; otherwise the
  metadata of the entry stored under the component's name is returned when the entry is
  valid.
\<close>

definition getCachedComponent ::
  "nat \<Rightarrow> string \<Rightarrow> string \<Rightarrow> string \<Rightarrow> CacheFile \<Rightarrow> CLIFlags \<Rightarrow> ComponentSchema option" where
  "getCachedComponent currentVersion name srcHash stHash cache flags =
     (if noCache flags then None
      else (case obj_get (cf_entries cache) name of
              None \<Rightarrow> None
            | Some entry \<Rightarrow>
                if isValid entry srcHash stHash currentVersion then Some (metadata entry)
                else None))"

section \<open>Processing one component\<close>

definition sourcePath_of :: "ComponentConfig \<Rightarrow> string" where
  "sourcePath_of config = path_join (c_sourceDir config) (getSourceFile config)"

definition storyPath_of :: "ComponentConfig \<Rightarrow> string" where
  "storyPath_of config =
     join_paths [c_sourceDir config, c_dirName config, c_dirName config @ ''.stories.tsx'']"

text \<open>Injecting \<^verbatim>\<open>ADDITIONAL_COMPONENT_PROPS[config.name]\<close>, one entry of the table.\<close>

definition inject_prop :: "PropSchema obj \<Rightarrow> string \<times> PropSchema \<Rightarrow> PropSchema obj" where
  "inject_prop props kv =
     (let propName = fst kv; propSchema = snd kv
      in case obj_get props propName of
           None \<Rightarrow> obj_set props propName propSchema
         | Some existing \<Rightarrow>
             let e1 = (if p_type propSchema \<noteq> [] then existing\<lparr>p_type := p_type propSchema\<rparr>
                       else existing);
                 e2 = (if truthy (p_description propSchema)
                       then e1\<lparr>p_description := p_description propSchema\<rparr> else e1)
             in obj_set props propName e2)"

text \<open>Applying \<^verbatim>\<open>PROP_TYPE_OVERRIDES[config.name]\<close>, one entry of the table.\<close>

definition override_type :: "PropSchema obj \<Rightarrow> string \<times> string \<Rightarrow> PropSchema obj" where
  "override_type props kv =
     (case obj_get props (fst kv) of
        None \<Rightarrow> props
      | Some existing \<Rightarrow> obj_set props (fst kv) (existing\<lparr>p_type := snd kv\<rparr>))"

text \<open>The schema of one detected sub-component.\<close>

definition sub_component_schema ::
  "'a env_scheme \<Rightarrow> string \<Rightarrow> DetectedSubComponent \<Rightarrow> SubComponentSchema" where
  "sub_component_schema env sourcePath subComp =
     (let subProps = extractSubComponentProps env sourcePath subComp (CLI_FLAGS env);
          description = s_description subComp;
          passthroughDoc =
            (if s_isPassThrough subComp \<and> truthy (s_baseComponent subComp)
             then obj_get (PASSTHROUGH_COMPONENT_DOCS env) (the (s_baseComponent subComp))
             else None)
      in \<lparr>sc_name = s_name subComp,
          sc_description = (case passthroughDoc of
                              Some doc \<Rightarrow> Some (pd_description doc) | None \<Rightarrow> description),
          sc_props = (case passthroughDoc of Some doc \<Rightarrow> pd_props doc | None \<Rightarrow> subProps),
          sc_isPassThrough = (if s_isPassThrough subComp then Some True else None),
          sc_baseComponent = (if truthy (s_baseComponent subComp) then s_baseComponent subComp
                               else None),
          sc_usageExamples = (case passthroughDoc of
                                Some doc \<Rightarrow> pd_usageExamples doc | None \<Rightarrow> None),
          sc_renderElement = (case passthroughDoc of
                                Some doc \<Rightarrow> (if truthy (pd_renderElement doc)
                                             then pd_renderElement doc else None)
                              | None \<Rightarrow> None)\<rparr>)"

definition sub_component_schemas ::
  "'a env_scheme \<Rightarrow> string \<Rightarrow> SubComponentSchema obj option" where
  "sub_component_schemas env sourcePath =
     (let detectedSubComponents = detectSubComponents env sourcePath
      in if length detectedSubComponents > 0
         then Some (foldl (\<lambda>acc subComp. obj_set acc (s_name subComp)
                                            (sub_component_schema env sourcePath subComp))
                      [] detectedSubComponents)
         else None)"

text \<open>The branch \<^verbatim>\<open>Not cached, regenerate\<close> builds this schema from the extracted props.\<close>

definition regenerated_schema ::
  "'a env_scheme \<Rightarrow> ComponentConfig \<Rightarrow> string list obj \<Rightarrow> PropSchema obj \<Rightarrow> ComponentSchema" where
  "regenerated_schema env config storyExamples props0 =
     (let props1 = (case obj_get (ADDITIONAL_COMPONENT_PROPS env) (c_name config) of
                      Some additionalProps \<Rightarrow> foldl inject_prop props0 additionalProps
                    | None \<Rightarrow> props0);
          props = (case obj_get (PROP_TYPE_OVERRIDES env) (c_name config) of
                     Some typeOverrides \<Rightarrow> foldl override_type props1 typeOverrides
                   | None \<Rightarrow> props1);
          colors = extractSemanticColors env (sourcePath_of config);
          examples = (case c_examples config of
                        Some ex \<Rightarrow> ex
                      | None \<Rightarrow> (case obj_get storyExamples (c_name config) of
                                   Some aiExamples \<Rightarrow> aiExamples | None \<Rightarrow> []));
          stylingMetadata = (case c_styling config of
                               Some st \<Rightarrow> Some st
                             | None \<Rightarrow> obj_get (COMPONENT_STYLING_METADATA env) (c_name config))
      in \<lparr>cs_name = c_name config, cs_type = c_type config,
          cs_description = c_description config, cs_importPath = ''@cloudflare/kumo'',
          cs_category = c_category config, cs_props = props, cs_examples = examples,
          cs_colors = colors,
          cs_baseStyles = (if truthy (c_baseStyles config) then c_baseStyles config else None),
          cs_subComponents = sub_component_schemas env (sourcePath_of config),
          cs_styling = stylingMetadata\<rparr>)"

text \<open>
  \<^verbatim>\<open>processComponent\<close>. Its only step that may fail to return is the reader's loop over
  \<^verbatim>\<open>$ref\<close>s, so the result is \<open>None\<close> exactly when \<^verbatim>\<open>generatePropsFromType\<close> does not return.
\<close>

definition processComponent ::
  "'a env_scheme \<Rightarrow> string list obj \<Rightarrow> string list obj \<Rightarrow> CacheFile \<Rightarrow> ComponentConfig
     \<Rightarrow> ProcessComponentResult option" where
  "processComponent env variantConstants storyExamples cache config =
     (let sourcePath = sourcePath_of config;
          srcHash = hashFileContent env sourcePath;
          stHash = hashFileContent env (storyPath_of config)
      in case getCachedComponent (CACHE_VERSION env) (c_name config) srcHash stHash cache
                (CLI_FLAGS env) of
           Some cachedMetadata \<Rightarrow>
             Some \<lparr>r_name = c_name config, r_category = c_category config,
                   r_schema = cachedMetadata,
                   r_colors = extractSemanticColors env sourcePath,
                   r_cached = True,
                   r_cacheEntry =
                     \<lparr>componentName = c_name config, sourceHash = srcHash, storyHash = stHash,
                      cacheVersion = CACHE_VERSION env,
                      generatedAt =
                        (case obj_get (cf_entries cache) (c_name config) of
                           Some e \<Rightarrow> (if generatedAt e \<noteq> 0 then generatedAt e else date_now env)
                         | None \<Rightarrow> date_now env),
                      metadata = cachedMetadata\<rparr>\<rparr>
         | None \<Rightarrow>
             (case generatePropsFromType env config of
                None \<Rightarrow> None
              | Some props0 \<Rightarrow>
                  let schema = regenerated_schema env config storyExamples props0
                  in Some \<lparr>r_name = c_name config, r_category = c_category config,
                           r_schema = schema,
                           r_colors = extractSemanticColors env sourcePath,
                           r_cached = False,
                           r_cacheEntry = createCacheEntry env (c_name config) srcHash stHash
                                            schema\<rparr>))"

section \<open>Processing in batches\<close>

text \<open>
  \<^verbatim>\<open>processComponent\<close> is declared \<^verbatim>\<open>async\<close> and contains no \<^verbatim>\<open>await\<close>, so the call inside
  \<^verbatim>\<open>batch.map\<close> runs a unit to its end before the next unit of the batch is called, and
  \<^verbatim>\<open>await Promise.all\<close> resumes the loop once per batch. The trace records these moments.
\<close>

datatype event = Started string | Finished string | BatchAwaited

definition BATCH_SIZE :: nat where
  "BATCH_SIZE = 8"

definition unit_events :: "ComponentConfig \<Rightarrow> event list" where
  "unit_events config = [Started (c_name config), Finished (c_name config)]"

text \<open>The units of a batch one after the other, then the \<^verbatim>\<open>await\<close>.\<close>

definition batch_events :: "ComponentConfig list \<Rightarrow> event list" where
  "batch_events batch = concat (map unit_events batch) @ [BatchAwaited]"

text \<open>
  The loop \<^verbatim>\<open>for (let i = 0; i < configs.length; i += BATCH_SIZE)\<close> with its two
  accumulators; \<open>None\<close> when a unit does not return.
\<close>

function process_batches ::
  "'a env_scheme \<Rightarrow> string list obj \<Rightarrow> string list obj \<Rightarrow> CacheFile \<Rightarrow> ComponentConfig list
     \<Rightarrow> nat \<Rightarrow> ProcessComponentResult list \<Rightarrow> event list
     \<Rightarrow> (ProcessComponentResult list \<times> event list) option" where
  "process_batches env variantConstants storyExamples cache configs i results trace =
     (if i < length configs then
        (let batch = take BATCH_SIZE (drop i configs)
         in case those (map (processComponent env variantConstants storyExamples cache) batch) of
              None \<Rightarrow> None
            | Some batchResults \<Rightarrow>
                process_batches env variantConstants storyExamples cache configs (i + BATCH_SIZE)
                  (results @ batchResults)
                  (trace @ batch_events batch))
      else Some (results, trace))"
  by pat_completeness auto
termination
  by (relation "measure (\<lambda>(env, vc, se, cache, configs, i, results, trace). length configs - i)")
    (auto simp: BATCH_SIZE_def)

definition processComponentsInParallel ::
  "'a env_scheme \<Rightarrow> ComponentConfig list \<Rightarrow> string list obj \<Rightarrow> string list obj \<Rightarrow> CacheFile
     \<Rightarrow> (ProcessComponentResult list \<times> event list) option" where
  "processComponentsInParallel env configs variantConstants storyExamples cache =
     process_batches env variantConstants storyExamples cache configs 0 [] []"

text \<open>The batches of a list, for stating what the loop does.\<close>

function chunks :: "nat \<Rightarrow> 'a list \<Rightarrow> 'a list list" where
  "chunks n xs = (if n = 0 \<or> xs = [] then [] else take n xs # chunks n (drop n xs))"
  by pat_completeness auto
termination
  by (relation "measure (\<lambda>(n, xs). length xs)") auto


section \<open>Assembling the registry\<close>

text \<open>
  \<^verbatim>\<open>Array.prototype.sort\<close> with a comparison function. The sort is stable: of two elements
  that compare as equal, the one that came first stays first. With a consistent comparison
  the result is the stable insertion sort below, which puts an element in front of the
  first element that it does not follow.
\<close>

fun insert_by :: "('a \<Rightarrow> 'a \<Rightarrow> int) \<Rightarrow> 'a \<Rightarrow> 'a list \<Rightarrow> 'a list" where
  "insert_by cmp x [] = [x]"
| "insert_by cmp x (y # ys) = (if cmp x y \<le> 0 then x # y # ys else y # insert_by cmp x ys)"

definition sort_by :: "('a \<Rightarrow> 'a \<Rightarrow> int) \<Rightarrow> 'a list \<Rightarrow> 'a list" where
  "sort_by cmp xs = foldr (insert_by cmp) xs []"

record BlockSchema =
  b_schema :: ComponentSchema
  b_files :: "string list"
  b_dependencies :: "string list"

record ByType =
  bt_component :: "string list"
  bt_block :: "string list"

record SearchIndex =
  byCategory :: "string list obj"
  byName :: "string list"
  byType :: ByType

record Registry =
  reg_version :: string
  reg_components :: "ComponentSchema obj"
  reg_blocks :: "BlockSchema obj"
  reg_search :: SearchIndex

record GenerateRegistryResult =
  registry :: Registry
  componentColors :: "string list obj"
  savedCache :: CacheFile

text \<open>The state built up by the loop over the component results and by the one over the block results.\<close>

record assembly =
  a_components :: "ComponentSchema obj"
  a_blocks :: "BlockSchema obj"
  a_byCategory :: "string list obj"
  a_byType :: ByType
  a_componentColors :: "string list obj"
  a_newCache :: CacheFile

definition push_category :: "string list obj \<Rightarrow> string \<Rightarrow> string \<Rightarrow> string list obj" where
  "push_category cats category name =
     (case obj_get cats category of
        None \<Rightarrow> obj_set cats category [name]
      | Some names \<Rightarrow> obj_set cats category (names @ [name]))"

definition add_component :: "assembly \<Rightarrow> ProcessComponentResult \<Rightarrow> assembly" where
  "add_component a result =
     a\<lparr>a_components := obj_set (a_components a) (r_name result) (r_schema result),
       a_componentColors := obj_set (a_componentColors a) (r_name result) (r_colors result),
       a_byType := (a_byType a)\<lparr>bt_component := bt_component (a_byType a) @ [r_name result]\<rparr>,
       a_byCategory := push_category (a_byCategory a) (r_category result) (r_name result),
       a_newCache := (a_newCache a)\<lparr>cf_entries :=
                        obj_set (cf_entries (a_newCache a)) (r_name result) (r_cacheEntry result)\<rparr>\<rparr>"

text \<open>
  The loop over the block results. \<^verbatim>\<open>BLOCKS.find(...)!\<close> is read at once, so a result
  without a block of its name is a \<^verbatim>\<open>TypeError\<close>: \<open>None\<close>.
\<close>

definition add_block ::
  "'a env_scheme \<Rightarrow> ComponentConfig list \<Rightarrow> assembly \<Rightarrow> ProcessComponentResult \<Rightarrow> assembly option" where
  "add_block env BLOCKS a result =
     (case find (\<lambda>b. c_name b = r_name result) BLOCKS of
        None \<Rightarrow> None
      | Some blockConfig \<Rightarrow>
          let mainFilePath = path_join (c_sourceDir blockConfig) (c_sourceFile blockConfig);
              dependencies = extractBlockDependencies env mainFilePath;
              files = getBlockFiles env (c_sourceDir blockConfig) (c_dirName blockConfig)
          in Some (a\<lparr>a_blocks := obj_set (a_blocks a) (r_name result)
                                     \<lparr>b_schema = (r_schema result)\<lparr>cs_type := ''block''\<rparr>,
                                      b_files = files, b_dependencies = dependencies\<rparr>,
                       a_componentColors :=
                         obj_set (a_componentColors a) (r_name result) (r_colors result),
                       a_byType := (a_byType a)\<lparr>bt_block := bt_block (a_byType a) @ [r_name result]\<rparr>,
                       a_byCategory :=
                         push_category (a_byCategory a) (r_category result) (r_name result),
                       a_newCache := (a_newCache a)\<lparr>cf_entries :=
                         obj_set (cf_entries (a_newCache a)) (r_name result)
                           (r_cacheEntry result)\<rparr>\<rparr>))"

fun add_blocks ::
  "'a env_scheme \<Rightarrow> ComponentConfig list \<Rightarrow> assembly \<Rightarrow> ProcessComponentResult list
     \<Rightarrow> assembly option" where
  "add_blocks env BLOCKS a [] = Some a"
| "add_blocks env BLOCKS a (result # rest) =
     (case add_block env BLOCKS a result of
        None \<Rightarrow> None
      | Some a' \<Rightarrow> add_blocks env BLOCKS a' rest)"

text \<open>The synthetic component \<^verbatim>\<open>InputArea\<close>.\<close>

definition input_area_schema :: "Styling \<Rightarrow> ComponentSchema" where
  "input_area_schema styling =
     \<lparr>cs_name = ''InputArea'', cs_type = ''component'',
      cs_description =
        ''Multi-line textarea input with Input variants and InputArea-specific dimensions'',
      cs_importPath = ''@cloudflare/kumo (synthetic - uses Input component)'',
      cs_category = ''Input'', cs_props = [], cs_examples = [], cs_colors = [],
      cs_baseStyles = None, cs_subComponents = None, cs_styling = Some styling\<rparr>"

definition add_input_area :: "'a env_scheme \<Rightarrow> assembly \<Rightarrow> assembly" where
  "add_input_area env a =
     (case obj_get (COMPONENT_STYLING_METADATA env) ''InputArea'' of
        None \<Rightarrow> a
      | Some styling \<Rightarrow>
          a\<lparr>a_components := obj_set (a_components a) ''InputArea'' (input_area_schema styling),
            a_byCategory := (case obj_get (a_byCategory a) ''Input'' of
                               None \<Rightarrow> obj_set (a_byCategory a) ''Input'' []
                             | Some names \<Rightarrow> a_byCategory a)\<rparr>)"

text \<open>The map \<^verbatim>\<open>variantConstants\<close>, built from the components and the blocks.\<close>

definition variant_constants :: "'a env_scheme \<Rightarrow> ComponentConfig list \<Rightarrow> string list obj" where
  "variant_constants env configs =
     foldl (\<lambda>m config.
              foldl (\<lambda>m' kv. obj_set m'
                                (''KUMO_'' @ toScreamingSnakeCase env (c_name config) @ ''_VARIANTS''
                                   @ ''.'' @ fst kv)
                                (obj_keys (snd kv)))
                m (c_variants config))
       [] configs"

text \<open>
  The three ways \<^verbatim>\<open>generateRegistry\<close> can end. The discovered components and blocks, the
  loaded cache and the demo examples are its inputs.
\<close>

datatype 'a outcome = Returned 'a | Thrown | Hung

definition generateRegistry ::
  "'a env_scheme \<Rightarrow> ComponentConfig list \<Rightarrow> ComponentConfig list \<Rightarrow> CacheFile \<Rightarrow> string list obj
     \<Rightarrow> GenerateRegistryResult outcome" where
  "generateRegistry env COMPONENTS BLOCKS cache storyExamples =
     (let variantConstants = variant_constants env (COMPONENTS @ BLOCKS)
      in case processComponentsInParallel env COMPONENTS variantConstants storyExamples cache of
           None \<Rightarrow> Hung
         | Some (componentResults, trace1) \<Rightarrow>
            (case processComponentsInParallel env BLOCKS variantConstants storyExamples cache of
               None \<Rightarrow> Hung
             | Some (blockResults, trace2) \<Rightarrow>
                 let allResults = sort_by (\<lambda>a b. localeCompare env (r_name a) (r_name b))
                                    (componentResults @ blockResults);
                     a0 = \<lparr>a_components = [], a_blocks = [], a_byCategory = [],
                           a_byType = \<lparr>bt_component = [], bt_block = []\<rparr>,
                           a_componentColors = [],
                           a_newCache = \<lparr>cf_version = CACHE_VERSION env, cf_entries = []\<rparr>\<rparr>;
                     a1 = foldl add_component a0 componentResults
                 in (case add_blocks env BLOCKS a1 blockResults of
                       None \<Rightarrow> Thrown
                     | Some a2 \<Rightarrow>
                         let a3 = add_input_area env a2
                         in Returned
                              \<lparr>registry =
                                 \<lparr>reg_version = ''1.0.0'', reg_components = a_components a3,
                                  reg_blocks = a_blocks a3,
                                  reg_search = \<lparr>byCategory = a_byCategory a3,
                                                byName = map r_name allResults,
                                                byType = a_byType a3\<rparr>\<rparr>,
                               componentColors = a_componentColors a3,
                               savedCache = a_newCache a2\<rparr>)))"

text \<open>
  A consistent comparison, as \<^verbatim>\<open>Array.prototype.sort\<close> requires it: the signs of the two
  directions agree and the order is transitive. Distinct strings may compare as equal.
\<close>

definition consistent_comparator :: "(string \<Rightarrow> string \<Rightarrow> int) \<Rightarrow> bool" where
  "consistent_comparator cmp =
     ((\<forall>a b. cmp a b \<le> 0 \<longleftrightarrow> 0 \<le> cmp b a) \<and>
      (\<forall>a b c. cmp a b \<le> 0 \<longrightarrow> cmp b c \<le> 0 \<longrightarrow> cmp a c \<le> 0))"

text \<open>On the names of \<open>S\<close>, only equal names compare as equal.\<close>

definition separates :: "(string \<Rightarrow> string \<Rightarrow> int) \<Rightarrow> string set \<Rightarrow> bool" where
  "separates cmp S = (\<forall>a \<in> S. \<forall>b \<in> S. cmp a b = 0 \<longrightarrow> a = b)"

text \<open>On the names of \<open>S\<close>, two comparisons put every pair in the same order.\<close>

definition agree_on :: "string set \<Rightarrow> (string \<Rightarrow> string \<Rightarrow> int) \<Rightarrow> (string \<Rightarrow> string \<Rightarrow> int) \<Rightarrow> bool" where
  "agree_on S cmp cmp' = (\<forall>a \<in> S. \<forall>b \<in> S. (cmp a b \<le> 0) = (cmp' a b \<le> 0))"

text \<open>
  The lexicographic comparison of two strings: by the codes of their characters, from
  left to right, a proper prefix first.
\<close>

fun code_compare :: "string \<Rightarrow> string \<Rightarrow> int" where
  "code_compare [] [] = 0"
| "code_compare [] (y # ys) = - 1"
| "code_compare (x # xs) [] = 1"
| "code_compare (x # xs) (y # ys) =
     (if (of_char x :: nat) < of_char y then - 1
      else if (of_char y :: nat) < of_char x then 1
      else code_compare xs ys)"

text \<open>What \<^verbatim>\<open>generateRegistry\<close> returned, if it returned.\<close>

fun returned :: "'a outcome \<Rightarrow> 'a option" where
  "returned (Returned x) = Some x"
| "returned Thrown = None"
| "returned Hung = None"

definition ordered_by :: "(string \<Rightarrow> string \<Rightarrow> int) \<Rightarrow> string list \<Rightarrow> bool" where
  "ordered_by cmp names = sorted_wrt (\<lambda>a b. cmp a b \<le> 0) names"

section \<open>The styles build\<close>

text \<open>
  The build script of the styles runs from top to bottom against the file system and one
  subprocess. What it does is recorded as a list of effects; how it ends is an exit code
  or an exception that nothing catches. The file system and the subprocess are oracles:
  \<open>Some e\<close> and \<open>Inl e\<close> are the exception \<open>e\<close>.
\<close>

datatype message =
  CopiedCss string
| CompilingStandalone
| CompiledStandalone
| CssBuildComplete
| CopyingBlocks
| CopiedBlockFile string string
| BlocksCopied

datatype warning = CssFileNotFound string | BlocksDirNotFound string

datatype effect =
  Log message
| Warn warning
| FailedToCompile string
| Mkdir string
| CopyFile string string
| Exec string

datatype ending = Exited nat | Uncaught string

type_synonym progress = "effect list \<times> ending option"

record stat =
  isDirectory :: bool
  isFile :: bool

record world =
  dirname :: string
  existsSync :: "string \<Rightarrow> bool"
  mkdirSync :: "string \<Rightarrow> string option"
  copyFileSync :: "string \<Rightarrow> string \<Rightarrow> string option"
  readdirSync :: "string \<Rightarrow> string + string list"
  statSync :: "string \<Rightarrow> string + stat"
  execSync :: "string \<Rightarrow> string option"

text \<open>Sequencing: the next step runs only if the script has not ended.\<close>

definition then_do :: "progress \<Rightarrow> (effect list \<Rightarrow> progress) \<Rightarrow> progress" where
  "then_do r k = (case snd r of None \<Rightarrow> k (fst r) | Some e \<Rightarrow> r)"

definition say :: "effect \<Rightarrow> effect list \<Rightarrow> progress" where
  "say e fx = (fx @ [e], None)"

definition do_mkdir :: "world \<Rightarrow> string \<Rightarrow> effect list \<Rightarrow> progress" where
  "do_mkdir w path fx =
     (case mkdirSync w path of
        None \<Rightarrow> (fx @ [Mkdir path], None)
      | Some e \<Rightarrow> (fx, Some (Uncaught e)))"

definition do_copy :: "world \<Rightarrow> string \<Rightarrow> string \<Rightarrow> effect list \<Rightarrow> progress" where
  "do_copy w src dst fx =
     (case copyFileSync w src dst of
        None \<Rightarrow> (fx @ [CopyFile src dst], None)
      | Some e \<Rightarrow> (fx, Some (Uncaught e)))"

definition srcDir :: "world \<Rightarrow> string" where
  "srcDir w = path_join (dirname w) ''../src/styles''"

definition distDir :: "world \<Rightarrow> string" where
  "distDir w = path_join (dirname w) ''../dist/styles''"

definition blocksSrcDir :: "world \<Rightarrow> string" where
  "blocksSrcDir w = path_join (dirname w) ''../src/blocks''"

definition blocksDistDir :: "world \<Rightarrow> string" where
  "blocksDistDir w = path_join (dirname w) ''../dist/src/blocks''"

definition cssFiles :: "string list" where
  "cssFiles = [''kumo.css'', ''kumo-binding.css'', ''theme-kumo.css'', ''theme-fedramp.css'']"

definition ensure_dist :: "world \<Rightarrow> effect list \<Rightarrow> progress" where
  "ensure_dist w fx = (if \<not> existsSync w (distDir w) then do_mkdir w (distDir w) fx else (fx, None))"

definition copy_css_file :: "world \<Rightarrow> string \<Rightarrow> effect list \<Rightarrow> progress" where
  "copy_css_file w file fx =
     (let srcPath = path_join (srcDir w) file; distPath = path_join (distDir w) file
      in if existsSync w srcPath
         then then_do (do_copy w srcPath distPath fx) (say (Log (CopiedCss file)))
         else say (Warn (CssFileNotFound file)) fx)"

fun for_each :: "('a \<Rightarrow> effect list \<Rightarrow> progress) \<Rightarrow> 'a list \<Rightarrow> effect list \<Rightarrow> progress" where
  "for_each body [] fx = (fx, None)"
| "for_each body (x # xs) fx = then_do (body x fx) (for_each body xs)"

definition tailwind_command :: "world \<Rightarrow> string" where
  "tailwind_command w =
     ''npx tailwindcss -i '' @ path_join (srcDir w) ''kumo-standalone.css'' @ '' -o ''
       @ path_join (distDir w) ''kumo-standalone.css'' @ '' --minify''"

text \<open>The \<^verbatim>\<open>try\<close> around the Tailwind CLI, with \<^verbatim>\<open>process.exit(1)\<close> in its \<^verbatim>\<open>catch\<close>.\<close>

definition compile_standalone :: "world \<Rightarrow> effect list \<Rightarrow> progress" where
  "compile_standalone w fx =
     (case execSync w (tailwind_command w) of
        None \<Rightarrow> (fx @ [Exec (tailwind_command w), Log CompiledStandalone], None)
      | Some error \<Rightarrow>
          (fx @ [Exec (tailwind_command w), FailedToCompile error], Some (Exited 1)))"

definition ends_with :: "string \<Rightarrow> string \<Rightarrow> bool" where
  "ends_with s t = starts_with (rev s) (rev t)"

definition copy_block_file :: "world \<Rightarrow> string \<Rightarrow> string \<Rightarrow> string \<Rightarrow> string \<Rightarrow> effect list \<Rightarrow> progress" where
  "copy_block_file w blockDir blockSrcPath blockDestPath file fx =
     (if ends_with file ''.tsx'' then
        (let srcFile = path_join blockSrcPath file; destFile = path_join blockDestPath file
         in case statSync w srcFile of
              Inl e \<Rightarrow> (fx, Some (Uncaught e))
            | Inr st \<Rightarrow>
                if isFile st
                then then_do (do_copy w srcFile destFile fx) (say (Log (CopiedBlockFile blockDir file)))
                else (fx, None))
      else (fx, None))"

definition copy_block_dir :: "world \<Rightarrow> string \<Rightarrow> string \<Rightarrow> string \<Rightarrow> effect list \<Rightarrow> progress" where
  "copy_block_dir w src dest blockDir fx =
     (let blockSrcPath = path_join src blockDir; blockDestPath = path_join dest blockDir
      in then_do (if \<not> existsSync w blockDestPath then do_mkdir w blockDestPath fx else (fx, None))
           (\<lambda>fx. case readdirSync w blockSrcPath of
                    Inl e \<Rightarrow> (fx, Some (Uncaught e))
                  | Inr files \<Rightarrow>
                      for_each (copy_block_file w blockDir blockSrcPath blockDestPath) files fx))"

text \<open>The filter over \<^verbatim>\<open>readdirSync(srcDir)\<close>, which stops at the first \<^verbatim>\<open>statSync\<close> that throws.\<close>

fun block_dirs :: "world \<Rightarrow> string \<Rightarrow> string list \<Rightarrow> string + string list" where
  "block_dirs w src [] = Inr []"
| "block_dirs w src (item # items) =
     (case statSync w (path_join src item) of
        Inl e \<Rightarrow> Inl e
      | Inr st \<Rightarrow>
          (case block_dirs w src items of
             Inl e \<Rightarrow> Inl e
           | Inr dirs \<Rightarrow> Inr (if isDirectory st then item # dirs else dirs)))"

definition copyBlockFiles :: "world \<Rightarrow> string \<Rightarrow> string \<Rightarrow> effect list \<Rightarrow> progress" where
  "copyBlockFiles w src dest fx =
     (if \<not> existsSync w src then say (Warn (BlocksDirNotFound src)) fx
      else (case readdirSync w src of
              Inl e \<Rightarrow> (fx, Some (Uncaught e))
            | Inr items \<Rightarrow>
                (case block_dirs w src items of
                   Inl e \<Rightarrow> (fx, Some (Uncaught e))
                 | Inr blockDirs \<Rightarrow> for_each (copy_block_dir w src dest) blockDirs fx)))"

text \<open>The statements of the script before the compilation, and the whole script.\<close>

definition before_compile :: "world \<Rightarrow> progress" where
  "before_compile w =
     then_do (then_do (ensure_dist w []) (for_each (copy_css_file w) cssFiles))
       (say (Log CompilingStandalone))"

definition styles_build :: "world \<Rightarrow> effect list \<times> ending" where
  "styles_build w =
     (let r = then_do (before_compile w) (\<lambda>fx.
                then_do (compile_standalone w fx) (\<lambda>fx.
                then_do (say (Log CssBuildComplete) fx) (\<lambda>fx.
                then_do (say (Log CopyingBlocks) fx) (\<lambda>fx.
                then_do (copyBlockFiles w (blocksSrcDir w) (blocksDistDir w) fx)
                  (say (Log BlocksCopied))))))
      in (fst r, (case snd r of None \<Rightarrow> Exited 0 | Some e \<Rightarrow> e)))"

section \<open>What a union member declares\<close>



definition shape_properties :: "Definition \<Rightarrow> Definition obj" where
  "shape_properties s = (case d_properties s of Some ps \<Rightarrow> ps | None \<Rightarrow> [])"

definition shape_required :: "Definition \<Rightarrow> string list" where
  "shape_required s = (case d_required s of Some rs \<Rightarrow> rs | None \<Rightarrow> [])"

text \<open>The merged properties and required names that \<open>merge_union\<close> computes from shapes.\<close>

definition merged_properties :: "Definition list \<Rightarrow> Definition obj" where
  "merged_properties shapes =
     foldl (\<lambda>acc mp. obj_spread acc (fst mp)) []
       (map (\<lambda>s. (obj_spread [] (shape_properties s), shape_required s)) shapes)"


text \<open>The flags a schema must carry, given the required names of its type.\<close>

definition flags_ok :: "string list \<Rightarrow> string \<Rightarrow> PropSchema \<Rightarrow> bool" where
  "flags_ok allRequired n p =
     (if n \<in> set allRequired then p_required p = Some True \<and> p_optional p = None
      else p_optional p = Some True \<and> p_required p = None)"

section \<open>Example data\<close>

text \<open>A property of type \<^verbatim>\<open>string\<close>, and one whose type is the literal union \<^verbatim>\<open>"sm" | "lg"\<close>.\<close>

definition string_definition :: Definition where
  "string_definition =
     Definition None None (Some (TypeName ''string'')) None None None None None None None"

definition size_definition :: Definition where
  "size_definition =
     Definition None (Some [''sm'', ''lg'']) (Some (TypeName ''string'')) None None None None None
       None None"

text \<open>The variant table and the defaults of \<^verbatim>\<open>Surface\<close>, from its source file.\<close>

definition KUMO_SURFACE_VARIANTS :: "variant_table obj" where
  "KUMO_SURFACE_VARIANTS =
     [(''color'',
       [(''primary'', \<lparr>v_description = Some ''Primary surface color'', v_classes = Some [],
                        v_stateClasses = None\<rparr>),
        (''secondary'', \<lparr>v_description = Some ''Secondary surface color'', v_classes = Some [],
                          v_stateClasses = None\<rparr>)])]"

definition KUMO_SURFACE_DEFAULT_VARIANTS :: "string obj" where
  "KUMO_SURFACE_DEFAULT_VARIANTS = [(''color'', ''primary'')]"

text \<open>
  A component \<^verbatim>\<open>Widget\<close> with \<^verbatim>\<open>WidgetProps = { size?: "sm" | "lg"; label: string }\<close>, a variant
  table for \<^verbatim>\<open>size\<close> and the default \<^verbatim>\<open>size: "sm"\<close>.
\<close>

definition widget_variants :: "variant_table obj" where
  "widget_variants =
     [(''size'',
       [(''sm'', \<lparr>v_description = None, v_classes = None, v_stateClasses = None\<rparr>),
        (''lg'', \<lparr>v_description = None, v_classes = None, v_stateClasses = None\<rparr>)])]"

definition widget_defaults :: "string obj" where
  "widget_defaults = [(''size'', ''sm'')]"

definition widget_properties :: "Definition obj" where
  "widget_properties = [(''size'', size_definition), (''label'', string_definition)]"

definition widget_config :: ComponentConfig where
  "widget_config =
     \<lparr>c_name = ''Widget'', c_propsType = None, c_sourceFile = ''widget/widget.tsx'',
      c_sourceDir = ''src/components'', c_dirName = ''widget'', c_category = ''Display'',
      c_type = ''component'', c_description = ''A widget'', c_variants = widget_variants,
      c_defaults = widget_defaults, c_examples = None, c_styling = None, c_baseStyles = None\<rparr>"

definition default_flags :: CLIFlags where
  "default_flags = \<lparr>includeInheritedProps = False, noCache = False, verbose = False\<rparr>"

text \<open>A reader whose schema generator fails on every type and whose filter skips nothing.\<close>

definition failing_reader :: reader_env where
  "failing_reader =
     \<lparr>createSchema = (\<lambda>path t. None), decodeURIComponent = Some,
      shouldSkipProp = (\<lambda>n flags. False), CLI_FLAGS = default_flags\<rparr>"















text \<open>A generator that returns a schema without a definition under the name asked for.\<close>

definition nameless_reader :: reader_env where
  "nameless_reader =
     \<lparr>createSchema = (\<lambda>path t. Some \<lparr>definitions = Some []\<rparr>), decodeURIComponent = Some,
      shouldSkipProp = (\<lambda>n flags. False), CLI_FLAGS = default_flags\<rparr>"

text \<open>
  A build whose schema generator fails on every type, so that every component takes the
  fallback, with no sub-components, styling metadata for \<^verbatim>\<open>InputArea\<close>, and the lexicographic
  comparison in the place of \<^verbatim>\<open>localeCompare\<close>.
\<close>

definition demo_env :: env where
  "demo_env =
     \<lparr>createSchema = (\<lambda>path t. None), decodeURIComponent = Some,
      shouldSkipProp = (\<lambda>n flags. False), CLI_FLAGS = default_flags,
      CACHE_VERSION = 1, hashFileContent = (\<lambda>path. ''hash of '' @ path),
      createCacheEntry = (\<lambda>n s t m. \<lparr>componentName = n, sourceHash = s, storyHash = t,
                                        cacheVersion = 1, generatedAt = 0, metadata = m\<rparr>),
      date_now = 0, extractSemanticColors = (\<lambda>path. []), detectSubComponents = (\<lambda>path. []),
      extractSubComponentProps = (\<lambda>path sub flags. []), toScreamingSnakeCase = (\<lambda>n. n),
      extractBlockDependencies = (\<lambda>path. []), getBlockFiles = (\<lambda>dir n. []),
      PASSTHROUGH_COMPONENT_DOCS = [], ADDITIONAL_COMPONENT_PROPS = [],
      PROP_TYPE_OVERRIDES = [],
      COMPONENT_STYLING_METADATA = [(''InputArea'', [(''height'', ''auto'')])],
      localeCompare = code_compare\<rparr>"

definition empty_cache :: CacheFile where
  "empty_cache = \<lparr>cf_version = 1, cf_entries = []\<rparr>"

definition button_config :: ComponentConfig where
  "button_config =
     \<lparr>c_name = ''Button'', c_propsType = None, c_sourceFile = ''button/button.tsx'',
      c_sourceDir = ''src/components'', c_dirName = ''button'', c_category = ''Action'',
      c_type = ''component'', c_description = ''A button'', c_variants = [],
      c_defaults = [], c_examples = None, c_styling = None, c_baseStyles = None\<rparr>"

text \<open>A cache that holds an entry for \<^verbatim>\<open>Widget\<close> with the given version.\<close>

definition widget_entry :: "nat \<Rightarrow> CacheEntry" where
  "widget_entry v =
     \<lparr>componentName = ''Widget'',
      sourceHash = ''hash of src/components/widget/widget.tsx'',
      storyHash = ''hash of src/components/widget/widget.stories.tsx'',
      cacheVersion = v, generatedAt = 1700000000000,
      metadata = \<lparr>cs_name = ''Widget'', cs_type = ''component'', cs_description = ''A widget'',
                  cs_importPath = ''@cloudflare/kumo'', cs_category = ''Display'', cs_props = [],
                  cs_examples = [], cs_colors = [], cs_baseStyles = None,
                  cs_subComponents = None, cs_styling = None\<rparr>\<rparr>"

definition widget_cache :: "nat \<Rightarrow> CacheFile" where
  "widget_cache v = \<lparr>cf_version = v, cf_entries = [(''Widget'', widget_entry v)]\<rparr>"

text \<open>A checkout where every file exists and the Tailwind CLI fails.\<close>

definition failing_tailwind :: world where
  "failing_tailwind =
     \<lparr>dirname = ''scripts'', existsSync = (\<lambda>path. True), mkdirSync = (\<lambda>path. None),
      copyFileSync = (\<lambda>src dst. None), readdirSync = (\<lambda>path. Inr []),
      statSync = (\<lambda>path. Inr \<lparr>isDirectory = False, isFile = True\<rparr>),
      execSync = (\<lambda>command. Some ''Command failed: npx tailwindcss'')\<rparr>"

text \<open>A schema whose props type is an alias of itself.\<close>

definition cyclic_definition :: Definition where
  "cyclic_definition =
     Definition (Some ''#/definitions/LoopProps'') None None None None None None None None None"

definition cyclic_definitions :: "Definition obj option" where
  "cyclic_definitions = Some [(''LoopProps'', cyclic_definition)]"

section \<open>Association lists as objects\<close>

lemma obj_set_not_Nil: "obj_set ob k v \<noteq> []"
  by (cases ob) (auto split: if_splits)

lemma set_obj_set: "set (obj_set ob k v) \<subseteq> insert (k, v) (set ob)"
  by (induction ob) (auto split: if_splits)

lemma obj_keys_obj_set:
  "obj_keys (obj_set ob k v) = (if k \<in> set (obj_keys ob) then obj_keys ob else obj_keys ob @ [k])"
  unfolding obj_keys_def by (induction ob) force+

lemma keys_obj_set: "set (obj_keys (obj_set ob k v)) = insert k (set (obj_keys ob))"
  by (auto simp: obj_keys_obj_set)

lemma distinct_obj_set: "distinct (obj_keys ob) \<Longrightarrow> distinct (obj_keys (obj_set ob k v))"
  by (simp add: obj_keys_obj_set)


lemma distinct_obj_spread: "distinct (obj_keys a) \<Longrightarrow> distinct (obj_keys (obj_spread a b))"
  unfolding obj_spread_def
proof (induction b arbitrary: a)
  case Nil
  then show ?case by simp
next
  case (Cons kv b)
  obtain k v where kv: "kv = (k, v)" by (cases kv)
  from Cons.prems show ?case
    by (simp add: kv Cons.IH distinct_obj_set)
qed

lemma those_map_Some:
  "\<forall>x \<in> set xs. f x \<noteq> None \<Longrightarrow> those (map f xs) = Some (map (the \<circ> f) xs)"
  by (induction xs) auto

section \<open>The variant enricher\<close>

lemma descriptions_collect_option:
  "descriptions (collect_option m kv) = [] \<longleftrightarrow>
     descriptions m = [] \<and> \<not> truthy (v_description (snd kv))"
  by (simp add: collect_option_def Let_def obj_set_not_Nil split: option.splits)

lemma classes_collect_option:
  "classes (collect_option m kv) = [] \<longleftrightarrow> classes m = [] \<and> \<not> truthy (v_classes (snd kv))"
  by (simp add: collect_option_def Let_def obj_set_not_Nil split: option.splits)

lemma stateClasses_collect_option:
  "stateClassesMap (collect_option m kv) = [] \<longleftrightarrow>
     stateClassesMap m = [] \<and> v_stateClasses (snd kv) = None"
  by (simp add: collect_option_def Let_def obj_set_not_Nil split: option.splits)

lemma descriptions_foldl:
  "descriptions (foldl collect_option m xs) = [] \<longleftrightarrow>
     descriptions m = [] \<and> (\<forall>kv \<in> set xs. \<not> truthy (v_description (snd kv)))"
  by (induction xs arbitrary: m) (simp_all add: descriptions_collect_option conj_assoc)

lemma classes_foldl:
  "classes (foldl collect_option m xs) = [] \<longleftrightarrow>
     classes m = [] \<and> (\<forall>kv \<in> set xs. \<not> truthy (v_classes (snd kv)))"
  by (induction xs arbitrary: m) (simp_all add: classes_collect_option conj_assoc)

lemma stateClasses_foldl:
  "stateClassesMap (foldl collect_option m xs) = [] \<longleftrightarrow>
     stateClassesMap m = [] \<and> (\<forall>kv \<in> set xs. v_stateClasses (snd kv) = None)"
  by (induction xs arbitrary: m) (simp_all add: stateClasses_collect_option conj_assoc)

lemma enrich_type: "p_type (enrich_variant prop vd) = ''enum''"
  and enrich_values: "p_values (enrich_variant prop vd) = Some (obj_keys vd)"
  and enrich_default: "p_default (enrich_variant prop vd) = p_default prop"
  and enrich_required: "p_required (enrich_variant prop vd) = p_required prop"
  and enrich_optional: "p_optional (enrich_variant prop vd) = p_optional prop"
  by (simp_all add: enrich_variant_def Let_def)

lemma initial_flags:
  "p_required (initial_prop t req def) = (if req then Some True else None)"
  "p_optional (initial_prop t req def) = (if req then None else Some True)"
  by (simp_all add: initial_prop_def Let_def)

lemma apply_enum_flags:
  "p_required (apply_enum prop def rd) = p_required prop"
  "p_optional (apply_enum prop def rd) = p_optional prop"
  by (simp_all add: apply_enum_def split: option.splits)

lemma apply_variants_flags:
  "p_required (apply_variants prop n vs) = p_required prop"
  "p_optional (apply_variants prop n vs) = p_optional prop"
  by (simp_all add: apply_variants_def enrich_required enrich_optional split: option.splits)

lemma apply_default_flags:
  "p_required (apply_default prop n ds) = p_required prop"
  "p_optional (apply_default prop n ds) = p_optional prop"
  by (simp_all add: apply_default_def split: option.splits)

text \<open>A conversion that returns is the four steps applied to the type string.\<close>

lemma convertToPropSchema_SomeD:
  assumes "convertToPropSchema dec propName def req variants defaults defs = Some prop"
  shows "\<exists>rd t. resolveRef dec def defs = Some rd \<and> jsonSchemaTypeToString dec def = Some t \<and>
           prop = apply_default
                    (apply_variants (apply_enum (initial_prop t req def) def rd) propName variants)
                    propName defaults"
  using assms by (auto simp: convertToPropSchema_def Let_def bind_eq_Some_conv)

lemma convertToPropSchema_flags:
  assumes "convertToPropSchema dec propName def req variants defaults defs = Some prop"
  shows "p_required prop = (if req then Some True else None)"
    and "p_optional prop = (if req then None else Some True)"
  using convertToPropSchema_SomeD [OF assms]
  by (auto simp: apply_default_flags apply_variants_flags apply_enum_flags initial_flags)

lemmas conversion_steps = convertToPropSchema_def resolveRef_def plain_type_string_def
  initial_prop_def apply_enum_def apply_variants_def apply_default_def obj_get_def Let_def

text \<open>When \<^verbatim>\<open>decodeURIComponent\<close> does not throw, the conversion returns.\<close>

lemma jsonSchemaTypeToString_returns:
  "\<forall>s. dec s \<noteq> None \<Longrightarrow> jsonSchemaTypeToString dec d \<noteq> None"
proof (induction dec d rule: jsonSchemaTypeToString.induct)
  case (1 dec r e t i a o' al p rq ds)
  note tot = "1.prems"
  then have d: "\<And>s. \<exists>y. dec s = Some y" by auto
  show ?case
  proof (cases "truthy r")
    case True
    with d show ?thesis by (auto simp: bind_eq_Some_conv)
  next
    case False
    note nr = this
    show ?thesis
    proof (cases "e \<noteq> None \<or> t = Some (TypeName ''array'')")
      case True
      with nr "1.IH"(1) tot show ?thesis by (auto split: option.splits)
    next
      case False
      show ?thesis
      proof (cases a)
        case (Some ts)
        with nr False "1.IH" tot have "\<forall>x \<in> set ts. jsonSchemaTypeToString dec x \<noteq> None"
          by blast
        from those_map_Some [OF this] nr False Some show ?thesis by simp
      next
        case None
        show ?thesis
        proof (cases o')
          case (Some ts)
          with nr False None "1.IH" tot have "\<forall>x \<in> set ts. jsonSchemaTypeToString dec x \<noteq> None"
            by blast
          from those_map_Some [OF this] nr False None Some show ?thesis by simp
        next
          case None' : None
          with nr False None show ?thesis by simp
        qed
      qed
    qed
  qed
qed


lemma convertToPropSchema_returns:
  assumes "\<forall>s. dec s \<noteq> None"
  shows "convertToPropSchema dec propName def req variants defaults defs \<noteq> None"
proof -
  from assms obtain n where "dec (or_else (last_segment (the (d_ref def))) []) = Some n"
    by auto
  then have "resolveRef dec def defs \<noteq> None"
    by (simp add: resolveRef_def split: option.splits)
  with jsonSchemaTypeToString_returns [OF assms, of "def"] show ?thesis
    by (auto simp: convertToPropSchema_def Let_def)
qed

text \<open>
  Claim C3. When \<^verbatim>\<open>convertToPropSchema\<close> returns a schema for a property whose name is a key
  of the variant tables, the schema has type \<^verbatim>\<open>"enum"\<close> and its values are the option keys
  of that table in the order of \<^verbatim>\<open>Object.keys\<close>; when the name is a key of the defaults, the
  schema carries that default.
\<close>

theorem variant_enrichment_sets_enum_values_default:
  assumes "convertToPropSchema dec propName def req variants defaults defs = Some prop"
  shows "(\<forall>vts variantDef. variants = Some vts \<longrightarrow> obj_get vts propName = Some variantDef \<longrightarrow>
            p_type prop = ''enum'' \<and> p_values prop = Some (obj_keys variantDef)) \<and>
         (\<forall>ds d. defaults = Some ds \<longrightarrow> obj_get ds propName = Some d \<longrightarrow> p_default prop = Some d)"
  using convertToPropSchema_SomeD [OF assms]
  by (auto simp: apply_default_def apply_variants_def enrich_type enrich_values enrich_default
      split: option.splits)

text \<open>
  The example of the specification: the table \<^verbatim>\<open>size: {sm, lg}\<close> with the default
  \<^verbatim>\<open>size: "sm"\<close> gives type \<^verbatim>\<open>"enum"\<close>, values \<^verbatim>\<open>["sm", "lg"]\<close> and default \<^verbatim>\<open>"sm"\<close>.
\<close>

theorem variant_enrichment_widget_size:
  "map_option p_type (convertToPropSchema Some ''size'' string_definition False
       (Some widget_variants) (Some widget_defaults) None) = Some ''enum'' \<and>
   map_option p_values (convertToPropSchema Some ''size'' string_definition False
       (Some widget_variants) (Some widget_defaults) None) = Some (Some [''sm'', ''lg'']) \<and>
   map_option p_default (convertToPropSchema Some ''size'' string_definition False
       (Some widget_variants) (Some widget_defaults) None) = Some (Some ''sm'')"
proof -
  obtain pr where c: "convertToPropSchema Some ''size'' string_definition False
       (Some widget_variants) (Some widget_defaults) None = Some pr"
    by (simp add: conversion_steps string_definition_def)
  have v: "obj_get widget_variants ''size'' = Some (snd (hd widget_variants))"
    by (simp add: widget_variants_def obj_get_def)
  have d: "obj_get widget_defaults ''size'' = Some ''sm''"
    by (simp add: widget_defaults_def obj_get_def)
  from variant_enrichment_sets_enum_values_default [OF c] v d have "p_type pr = ''enum''"
    "p_values pr = Some (obj_keys (snd (hd widget_variants)))" "p_default pr = Some ''sm''"
    by blast+
  then show ?thesis
    unfolding c by (simp add: widget_variants_def obj_keys_def)
qed

text \<open>
  Claim C7, as stated, fails. Both options of the \<^verbatim>\<open>color\<close> table of \<^verbatim>\<open>Surface\<close> define
  \<^verbatim>\<open>classes\<close>, as the empty string; the source tests \<^verbatim>\<open>if (val.classes)\<close>, the empty string
  is falsy, and the emitted schema has no \<^verbatim>\<open>classes\<close> field.
\<close>

theorem surface_classes_defined_but_absent:
  "map_option p_classes (convertToPropSchema Some ''color'' string_definition False
       (Some KUMO_SURFACE_VARIANTS) (Some KUMO_SURFACE_DEFAULT_VARIANTS) None) = Some None \<and>
   map (v_classes \<circ> snd) (snd (hd KUMO_SURFACE_VARIANTS)) = [Some [], Some []]"
  by (simp add: conversion_steps string_definition_def KUMO_SURFACE_VARIANTS_def
      KUMO_SURFACE_DEFAULT_VARIANTS_def enrich_variant_def collect_options_def collect_option_def
      obj_keys_def)

text \<open>
  Claim C7, amended. For a property enriched from a variant table, \<^verbatim>\<open>descriptions\<close> is
  attached exactly when some option has a non-empty description, \<^verbatim>\<open>classes\<close> exactly when
  some option has a non-empty \<^verbatim>\<open>classes\<close> string, and \<^verbatim>\<open>stateClasses\<close> exactly when some
  option has a \<^verbatim>\<open>stateClasses\<close> object; none of the three is ever attached as an empty map.
\<close>

theorem variant_maps_attached_iff_truthy:
  assumes "convertToPropSchema dec propName def req (Some variants) defaults defs = Some prop"
    and "obj_get variants propName = Some variantDef"
  shows "(p_descriptions prop \<noteq> None \<longleftrightarrow>
            (\<exists>kv \<in> set variantDef. truthy (v_description (snd kv)))) \<and>
         (p_classes prop \<noteq> None \<longleftrightarrow> (\<exists>kv \<in> set variantDef. truthy (v_classes (snd kv)))) \<and>
         (p_stateClasses prop \<noteq> None \<longleftrightarrow>
            (\<exists>kv \<in> set variantDef. v_stateClasses (snd kv) \<noteq> None)) \<and>
         p_descriptions prop \<noteq> Some [] \<and> p_classes prop \<noteq> Some [] \<and>
         p_stateClasses prop \<noteq> Some []"
proof -
  from convertToPropSchema_SomeD [OF assms(1)] obtain rd t where
    p: "prop = apply_default
                 (enrich_variant (apply_enum (initial_prop t req def) def rd) variantDef)
                 propName defaults"
    using assms(2) by (auto simp: apply_variants_def)
  let ?b = "apply_enum (initial_prop t req def) def rd"
  let ?m = "collect_options variantDef"
  have b: "p_descriptions ?b = None" "p_classes ?b = None" "p_stateClasses ?b = None"
    by (simp_all add: apply_enum_def initial_prop_def Let_def split: option.splits)
  have e: "p_descriptions (enrich_variant ?b variantDef) =
             (if descriptions ?m \<noteq> [] then Some (descriptions ?m) else None)"
    "p_classes (enrich_variant ?b variantDef) =
       (if classes ?m \<noteq> [] then Some (classes ?m) else None)"
    "p_stateClasses (enrich_variant ?b variantDef) =
       (if stateClassesMap ?m \<noteq> [] then Some (stateClassesMap ?m) else None)"
    using b by (simp_all add: enrich_variant_def Let_def)
  have d: "p_descriptions prop = p_descriptions (enrich_variant ?b variantDef)"
    "p_classes prop = p_classes (enrich_variant ?b variantDef)"
    "p_stateClasses prop = p_stateClasses (enrich_variant ?b variantDef)"
    unfolding p by (simp_all add: apply_default_def split: option.splits)
  have m: "descriptions ?m = [] \<longleftrightarrow> (\<forall>kv \<in> set variantDef. \<not> truthy (v_description (snd kv)))"
    "classes ?m = [] \<longleftrightarrow> (\<forall>kv \<in> set variantDef. \<not> truthy (v_classes (snd kv)))"
    "stateClassesMap ?m = [] \<longleftrightarrow> (\<forall>kv \<in> set variantDef. v_stateClasses (snd kv) = None)"
    by (simp_all add: collect_options_def descriptions_foldl classes_foldl stateClasses_foldl)
  show ?thesis
    unfolding d e using m by auto
qed

text \<open>On \<^verbatim>\<open>Surface\<close>: the descriptions are attached, \<^verbatim>\<open>classes\<close> and \<^verbatim>\<open>stateClasses\<close> are not.\<close>

theorem variant_maps_surface_color:
  "map_option p_descriptions (convertToPropSchema Some ''color'' string_definition False
       (Some KUMO_SURFACE_VARIANTS) (Some KUMO_SURFACE_DEFAULT_VARIANTS) None)
     = Some (Some [(''primary'', ''Primary surface color''),
                   (''secondary'', ''Secondary surface color'')]) \<and>
   map_option (\<lambda>p. p_classes p \<noteq> None) (convertToPropSchema Some ''color'' string_definition False
       (Some KUMO_SURFACE_VARIANTS) (Some KUMO_SURFACE_DEFAULT_VARIANTS) None) = Some False \<and>
   map_option (\<lambda>p. p_stateClasses p \<noteq> None) (convertToPropSchema Some ''color'' string_definition
       False (Some KUMO_SURFACE_VARIANTS) (Some KUMO_SURFACE_DEFAULT_VARIANTS) None) = Some False"
proof -
  let ?t = "snd (hd KUMO_SURFACE_VARIANTS)"
  obtain pr where c: "convertToPropSchema Some ''color'' string_definition False
       (Some KUMO_SURFACE_VARIANTS) (Some KUMO_SURFACE_DEFAULT_VARIANTS) None = Some pr"
    by (simp add: conversion_steps string_definition_def)
  have v: "obj_get KUMO_SURFACE_VARIANTS ''color'' = Some ?t"
    by (simp add: KUMO_SURFACE_VARIANTS_def obj_get_def)
  have n: "\<not> (\<exists>kv \<in> set ?t. truthy (v_classes (snd kv)))"
    "\<not> (\<exists>kv \<in> set ?t. v_stateClasses (snd kv) \<noteq> None)"
    by (simp_all add: KUMO_SURFACE_VARIANTS_def)
  from variant_maps_attached_iff_truthy [OF c v] n
  have "p_classes pr = None" "p_stateClasses pr = None"
    by blast+
  moreover have "map_option p_descriptions (convertToPropSchema Some ''color'' string_definition False
       (Some KUMO_SURFACE_VARIANTS) (Some KUMO_SURFACE_DEFAULT_VARIANTS) None)
     = Some (Some [(''primary'', ''Primary surface color''),
                   (''secondary'', ''Secondary surface color'')])"
    by (simp add: conversion_steps string_definition_def KUMO_SURFACE_VARIANTS_def
      KUMO_SURFACE_DEFAULT_VARIANTS_def enrich_variant_def collect_options_def collect_option_def
      obj_keys_def)
  ultimately show ?thesis
    unfolding c by simp
qed

section \<open>Required and optional flags\<close>

lemma convert_properties_flags:
  assumes "convert_properties env config defs allRequired ps acc = Some props"
    and "\<forall>(n, p) \<in> set acc. flags_ok allRequired n p"
  shows "\<forall>(n, p) \<in> set props. flags_ok allRequired n p"
  using assms
proof (induction ps arbitrary: acc)
  case Nil
  then show ?case by simp
next
  case (Cons a ps)
  obtain propName propDef where a: "a = (propName, propDef)" by (cases a)
  show ?case
  proof (cases "shouldSkipProp env propName (CLI_FLAGS env)")
    case True
    with Cons a show ?thesis by simp
  next
    case False
    with Cons.prems(1) a obtain pr where
      c: "convertToPropSchema (decodeURIComponent env) propName propDef (propName \<in> set allRequired)
            (Some (c_variants config)) (Some (c_defaults config)) defs = Some pr"
      and r: "convert_properties env config defs allRequired ps (obj_set acc propName pr) = Some props"
      by (auto simp: bind_eq_Some_conv)
    have "flags_ok allRequired propName pr"
      using convertToPropSchema_flags [OF c] by (simp add: flags_ok_def)
    with Cons.prems(2) have "\<forall>(n, p) \<in> set (obj_set acc propName pr). flags_ok allRequired n p"
      using set_obj_set [of acc propName pr] by auto
    from Cons.IH [OF r this] show ?thesis .
  qed
qed

text \<open>
  Claim C10. Every schema that the conversion loop of \<^verbatim>\<open>generatePropsFromType\<close> emits has
  exactly one of the two flags: \<^verbatim>\<open>required: true\<close> and no \<^verbatim>\<open>optional\<close> when its name is in
  the computed required list, \<^verbatim>\<open>optional: true\<close> and no \<^verbatim>\<open>required\<close> otherwise.
\<close>

theorem extracted_prop_has_exactly_one_flag:
  assumes "convert_properties env config defs allRequired allProperties [] = Some props"
    and "(n, p) \<in> set props"
  shows "(n \<in> set allRequired \<longrightarrow> p_required p = Some True \<and> p_optional p = None) \<and>
         (n \<notin> set allRequired \<longrightarrow> p_optional p = Some True \<and> p_required p = None)"
  using convert_properties_flags [OF assms(1)] assms(2) by (auto simp: flags_ok_def)

text \<open>On \<^verbatim>\<open>Widget\<close>: \<^verbatim>\<open>label\<close> is required and not optional, \<^verbatim>\<open>size\<close> optional and not required.\<close>

theorem extracted_flags_widget:
  "\<exists>props p q. convert_properties failing_reader widget_config None [''label''] widget_properties []
        = Some props \<and> (''label'', p) \<in> set props \<and> (''size'', q) \<in> set props \<and>
      p_required p = Some True \<and> p_optional p = None \<and>
      p_optional q = Some True \<and> p_required q = None"
proof -
  obtain p q where c: "convert_properties failing_reader widget_config None [''label'']
      widget_properties [] = Some [(''size'', q), (''label'', p)]"
    by (simp add: widget_properties_def failing_reader_def conversion_steps string_definition_def
        size_definition_def)
  have "(''label'', p) \<in> set [(''size'', q), (''label'', p)]"
    "(''size'', q) \<in> set [(''size'', q), (''label'', p)]"
    by simp_all
  from extracted_prop_has_exactly_one_flag [OF c this(1)]
    extracted_prop_has_exactly_one_flag [OF c this(2)] c
  show ?thesis by auto
qed

section \<open>Union types\<close>





lemma distinct_merged:
  "distinct (obj_keys a) \<Longrightarrow> distinct (obj_keys (foldl (\<lambda>acc mp. obj_spread acc (fst mp)) a mps))"
  by (induction mps arbitrary: a) (auto simp: distinct_obj_spread)



lemma distinct_merged_properties: "distinct (obj_keys (merged_properties shapes))"
  unfolding merged_properties_def by (rule distinct_merged) (simp add: obj_keys_def)











section \<open>The loop over references\<close>

text \<open>On an alias of itself the loop of \<^verbatim>\<open>generatePropsFromType\<close> does not return.\<close>

lemma follow_ref_chain_cycle_aux:
  assumes "follow_ref_chain dec defs d = Some r"
  shows "\<not> (dec = Some \<and> defs = cyclic_definitions \<and> d = cyclic_definition)"
proof (rule follow_ref_chain.raw_induct
    [where P = "\<lambda>dec defs d r. \<not> (dec = Some \<and> defs = cyclic_definitions \<and> d = cyclic_definition)",
      OF _ assms])
  fix f dec defs d r
  assume IH: "\<And>dec defs d r. f dec defs d = Some r \<Longrightarrow>
                \<not> (dec = Some \<and> defs = cyclic_definitions \<and> d = cyclic_definition)"
    and body: "(if truthy (d_ref d) \<and> d_properties d = None \<and> d_allOf d = None \<and>
                   d_anyOf d = None \<and> d_oneOf d = None
                then case dec (last_segment (the (d_ref d))) of
                       None \<Rightarrow> Some None
                     | Some refName \<Rightarrow>
                        (case lookup_definition defs refName of
                           None \<Rightarrow> Some (Some d)
                         | Some refDef \<Rightarrow> f dec defs refDef)
                else Some (Some d)) = Some r"
  show "\<not> (dec = Some \<and> defs = cyclic_definitions \<and> d = cyclic_definition)"
  proof
    assume c: "dec = Some \<and> defs = cyclic_definitions \<and> d = cyclic_definition"
    have "last_segment ''#/definitions/LoopProps'' = ''LoopProps''"
      by (simp add: last_segment_def)
    with body c have "f Some cyclic_definitions cyclic_definition = Some r"
      by (simp add: cyclic_definition_def cyclic_definitions_def lookup_definition_def obj_get_def)
    from IH [OF this] show False by simp
  qed
qed

lemma follow_ref_chain_cycle:
  "follow_ref_chain Some cyclic_definitions cyclic_definition = None"
  using follow_ref_chain_cycle_aux [of Some cyclic_definitions cyclic_definition]
  by (cases "follow_ref_chain Some cyclic_definitions cyclic_definition") auto

text \<open>A definition with \<^verbatim>\<open>properties\<close> ends the loop at once.\<close>

lemma follow_ref_chain_properties:
  "d_properties mainDef \<noteq> None \<Longrightarrow> follow_ref_chain dec defs mainDef = Some (Some mainDef)"
  by (subst follow_ref_chain.simps) auto

text \<open>
  Every schema that a returning extraction emits has exactly one of the two flags, whatever
  the shape of the props type.
\<close>

lemma try_generate_flags:
  assumes "try_generate env config = Some (Some props)" and "(n, p) \<in> set props"
  shows "(p_required p = Some True \<and> p_optional p = None) \<or>
         (p_optional p = Some True \<and> p_required p = None)"
proof -
  from assms(1) have "props = [] \<or>
      (\<exists>defs allRequired allProperties.
         convert_properties env config defs allRequired allProperties [] = Some props)"
    by (auto simp: try_generate_def Let_def bind_eq_Some_conv split: option.splits)
  with assms(2) obtain defs allRequired allProperties where
    "convert_properties env config defs allRequired allProperties [] = Some props"
    by auto
  from convert_properties_flags [OF this] assms(2) have "flags_ok allRequired n p"
    by auto
  then show ?thesis
    by (auto simp: flags_ok_def split: if_splits)
qed

section \<open>The fallback of the reader\<close>

lemma obj_get_obj_set: "obj_get (obj_set ob k v) k' = (if k' = k then Some v else obj_get ob k')"
  unfolding obj_get_def by (induction ob) auto

lemma variant_props_fold:
  assumes "n \<in> fst ` set xs"
  shows "\<exists>vd. (n, vd) \<in> set xs \<and>
           obj_get (foldl (\<lambda>props kv. obj_set props (fst kv) (variant_only_prop config (fst kv) (snd kv)))
                      acc xs) n
             = Some (variant_only_prop config n vd)"
  using assms
proof (induction xs rule: rev_induct)
  case Nil
  then show ?case by simp
next
  case (snoc kv xs)
  show ?case
  proof (cases "n = fst kv")
    case True
    then have "(n, snd kv) \<in> set (xs @ [kv])" by simp
    moreover have "obj_get (foldl (\<lambda>props kv. obj_set props (fst kv)
          (variant_only_prop config (fst kv) (snd kv))) acc (xs @ [kv])) n
        = Some (variant_only_prop config n (snd kv))"
      using True by (simp add: obj_get_obj_set)
    ultimately show ?thesis by blast
  next
    case False
    with snoc.prems have "n \<in> fst ` set xs" by auto
    from snoc.IH [OF this] False show ?thesis by (auto simp: obj_get_obj_set)
  qed
qed

lemma try_generate_generator_throws:
  "createSchema env (path_join (c_sourceDir config) (getSourceFile config)) (getPropsType config) = None
     \<Longrightarrow> try_generate env config = Some None"
  by (simp add: try_generate_def Let_def)

text \<open>
  The guard \<^verbatim>\<open>if (!mainDef)\<close>: a schema without a definition under the name of the props type
  gives the empty map, whatever the component declares.
\<close>

lemma missing_definition_gives_empty_props:
  assumes "createSchema env (path_join (c_sourceDir config) (getSourceFile config))
             (getPropsType config) = Some schema"
    and "lookup_definition (definitions schema) (getPropsType config) = None"
  shows "generatePropsFromType env config = Some []"
  using assms by (simp add: generatePropsFromType_def try_generate_def Let_def)

text \<open>
  Claim C5, as stated, fails. When the generator returns a schema that has no definition
  under the name of the props type, the source warns \<^verbatim>\<open>Could not find type\<close> and returns the
  empty map: no variant property, no \<^verbatim>\<open>className\<close>, no \<^verbatim>\<open>children\<close>, although \<^verbatim>\<open>Widget\<close>
  declares the variant \<^verbatim>\<open>size\<close>.
\<close>

theorem missing_definition_returns_empty_props:
  "generatePropsFromType nameless_reader widget_config = Some [] \<and>
   obj_keys (c_variants widget_config) = [''size'']"
  by (simp add: generatePropsFromType_def try_generate_def Let_def nameless_reader_def
      lookup_definition_def obj_get_def widget_config_def widget_variants_def obj_keys_def)

text \<open>
  Claim C5, amended. When the body of \<^verbatim>\<open>try\<close> throws (the schema generator throws, or the
  traversal does), \<^verbatim>\<open>generatePropsFromType\<close> returns, and what it returns has
  \<^verbatim>\<open>className\<close> of type \<^verbatim>\<open>string\<close>, \<^verbatim>\<open>children\<close> of type \<^verbatim>\<open>ReactNode\<close>, and for every declared
  variant property under another name a schema of type \<^verbatim>\<open>"enum"\<close> whose values are the
  option keys of its table.
\<close>

theorem fallback_when_extraction_throws:
  assumes "try_generate env config = Some None"
  shows "\<exists>props. generatePropsFromType env config = Some props \<and>
           obj_get props ''className'' = Some (plain_prop ''string'' ''Additional CSS classes'') \<and>
           obj_get props ''children'' = Some (plain_prop ''ReactNode'' ''Child elements'') \<and>
           (\<forall>n \<in> set (obj_keys (c_variants config)). n \<noteq> ''className'' \<longrightarrow> n \<noteq> ''children'' \<longrightarrow>
              (\<exists>p vd. obj_get props n = Some p \<and> (n, vd) \<in> set (c_variants config) \<and>
                 p_type p = ''enum'' \<and> p_values p = Some (obj_keys vd)))"
proof -
  let ?props = "generatePropsFromVariantsOnly config"
  have g: "generatePropsFromType env config = Some ?props"
    using assms by (simp add: generatePropsFromType_def)
  have c: "obj_get ?props ''className'' = Some (plain_prop ''string'' ''Additional CSS classes'')"
    "obj_get ?props ''children'' = Some (plain_prop ''ReactNode'' ''Child elements'')"
    by (simp_all add: generatePropsFromVariantsOnly_def Let_def obj_get_obj_set)
  have v: "\<exists>p vd. obj_get ?props n = Some p \<and> (n, vd) \<in> set (c_variants config) \<and>
                 p_type p = ''enum'' \<and> p_values p = Some (obj_keys vd)"
    if "n \<in> set (obj_keys (c_variants config))" "n \<noteq> ''className''" "n \<noteq> ''children''" for n
  proof -
    from that(1) have "n \<in> fst ` set (c_variants config)" by (simp add: obj_keys_def)
    from variant_props_fold [OF this, of config "[]"] that(2,3) show ?thesis
      by (auto simp: generatePropsFromVariantsOnly_def Let_def obj_get_obj_set
          variant_only_prop_def)
  qed
  from g c v show ?thesis by blast
qed

text \<open>On \<^verbatim>\<open>Widget\<close>, with a generator that throws.\<close>

theorem fallback_widget:
  "\<exists>props p. generatePropsFromType failing_reader widget_config = Some props \<and>
     obj_get props ''size'' = Some p \<and> p_type p = ''enum'' \<and> p_values p = Some [''sm'', ''lg''] \<and>
     map_option p_type (obj_get props ''className'') = Some ''string'' \<and>
     map_option p_type (obj_get props ''children'') = Some ''ReactNode''"
proof -
  have t: "try_generate failing_reader widget_config = Some None"
    by (rule try_generate_generator_throws) (simp add: failing_reader_def)
  have k: "''size'' \<in> set (obj_keys (c_variants widget_config))"
    by (simp add: widget_config_def widget_variants_def obj_keys_def)
  from fallback_when_extraction_throws [OF t] k obtain props p vd where
    "generatePropsFromType failing_reader widget_config = Some props"
    "obj_get props ''className'' = Some (plain_prop ''string'' ''Additional CSS classes'')"
    "obj_get props ''children'' = Some (plain_prop ''ReactNode'' ''Child elements'')"
    "obj_get props ''size'' = Some p" "(''size'', vd) \<in> set (c_variants widget_config)"
    "p_type p = ''enum''" "p_values p = Some (obj_keys vd)"
    by force
  moreover from this(5) have "obj_keys vd = [''sm'', ''lg'']"
    by (auto simp: widget_config_def widget_variants_def obj_keys_def)
  ultimately show ?thesis
    by (auto simp: plain_prop_def)
qed

section \<open>Batches\<close>

declare chunks.simps [simp del]
declare process_batches.simps [simp del]

lemma chunks_Nil: "chunks n [] = []"
  by (subst chunks.simps) simp

lemma chunks_step: "0 < n \<Longrightarrow> xs \<noteq> [] \<Longrightarrow> chunks n xs = take n xs # chunks n (drop n xs)"
  by (subst chunks.simps) simp

lemma concat_chunks: "0 < n \<Longrightarrow> concat (chunks n xs) = xs"
proof (induction n xs rule: chunks.induct)
  case (1 n xs)
  show ?case
  proof (cases "xs = []")
    case True
    then show ?thesis by (simp add: chunks_Nil)
  next
    case False
    with "1" show ?thesis by (simp add: chunks_step)
  qed
qed

lemma chunks_sizes:
  "0 < n \<Longrightarrow> b \<in> set (chunks n xs) \<Longrightarrow> 0 < length b \<and> length b \<le> n"
proof (induction n xs rule: chunks.induct)
  case (1 n xs)
  show ?case
  proof (cases "xs = []")
    case True
    with "1.prems" show ?thesis by (simp add: chunks_Nil)
  next
    case False
    with "1" show ?thesis by (auto simp: chunks_step)
  qed
qed

lemma chunks_full:
  "0 < n \<Longrightarrow> b \<in> set (butlast (chunks n xs)) \<Longrightarrow> length b = n"
proof (induction n xs rule: chunks.induct)
  case (1 n xs)
  show ?case
  proof (cases "xs = []")
    case True
    with "1.prems" show ?thesis by (simp add: chunks_Nil)
  next
    case False
    note ne = this
    show ?thesis
    proof (cases "drop n xs = []")
      case True
      with "1.prems" ne show ?thesis by (simp add: chunks_step chunks_Nil)
    next
      case False
      then have "chunks n (drop n xs) \<noteq> []"
        using "1.prems"(1) by (simp add: chunks_step [of n "drop n xs"])
      with "1" ne False show ?thesis by (auto simp: chunks_step)
    qed
  qed
qed

lemma process_batches_eq:
  assumes "\<forall>c \<in> set configs. processComponent env vc se cache c \<noteq> None"
  shows "process_batches env vc se cache configs i results trace =
           Some (results @ map (the \<circ> processComponent env vc se cache) (drop i configs),
                 trace @ concat (map batch_events (chunks BATCH_SIZE (drop i configs))))"
  using assms
proof (induction env vc se cache configs i results trace rule: process_batches.induct)
  case (1 env vc se cache configs i results trace)
  let ?proc = "processComponent env vc se cache"
  show ?case
  proof (cases "i < length configs")
    case False
    then show ?thesis
      by (subst process_batches.simps) (simp add: chunks_Nil)
  next
    case True
    let ?batch = "take BATCH_SIZE (drop i configs)"
    have "\<forall>c \<in> set ?batch. ?proc c \<noteq> None"
      using "1.prems" by (meson in_set_dropD in_set_takeD)
    then have t: "those (map ?proc ?batch) = Some (map (the \<circ> ?proc) ?batch)"
      by (rule those_map_Some)
    have ne: "drop i configs \<noteq> []" using True by simp
    have d: "drop (i + BATCH_SIZE) configs = drop BATCH_SIZE (drop i configs)"
      by (simp add: add.commute)
    have m: "map (the \<circ> ?proc) ?batch @ map (the \<circ> ?proc) (drop BATCH_SIZE (drop i configs))
              = map (the \<circ> ?proc) (drop i configs)"
      by (metis append_take_drop_id map_append)
    have c: "chunks BATCH_SIZE (drop i configs)
               = ?batch # chunks BATCH_SIZE (drop BATCH_SIZE (drop i configs))"
      by (rule chunks_step [OF _ ne]) (simp add: BATCH_SIZE_def)
    have "process_batches env vc se cache configs i results trace
            = process_batches env vc se cache configs (i + BATCH_SIZE)
                (results @ map (the \<circ> ?proc) ?batch) (trace @ batch_events ?batch)"
      by (subst process_batches.simps) (simp add: True t Let_def)
    also have "\<dots> = Some ((results @ map (the \<circ> ?proc) ?batch)
                          @ map (the \<circ> ?proc) (drop (i + BATCH_SIZE) configs),
                        (trace @ batch_events ?batch)
                          @ concat (map batch_events (chunks BATCH_SIZE (drop (i + BATCH_SIZE) configs))))"
      by (rule "1.IH" [OF True refl t "1.prems"])
    also have "\<dots> = Some (results @ map (the \<circ> ?proc) (drop i configs),
                        trace @ concat (map batch_events (chunks BATCH_SIZE (drop i configs))))"
      unfolding d c using m by simp
    finally show ?thesis .
  qed
qed

lemma processComponent_name:
  "processComponent env vc se cache config = Some result \<Longrightarrow> r_name result = c_name config"
  by (auto simp: processComponent_def Let_def split: option.splits)

lemma processComponent_returns:
  "generatePropsFromType env config \<noteq> None \<Longrightarrow> processComponent env vc se cache config \<noteq> None"
  by (auto simp: processComponent_def Let_def split: option.splits)

lemma generator_throws_returns:
  "createSchema env (path_join (c_sourceDir config) (getSourceFile config)) (getPropsType config) = None
     \<Longrightarrow> processComponent env vc se cache config \<noteq> None"
  by (rule processComponent_returns)
    (simp add: generatePropsFromType_def try_generate_generator_throws)

lemma processComponentsInParallel_eq:
  assumes "\<forall>c \<in> set configs. processComponent env vc se cache c \<noteq> None"
  shows "processComponentsInParallel env configs vc se cache =
           Some (map (the \<circ> processComponent env vc se cache) configs,
                 concat (map batch_events (chunks BATCH_SIZE configs)))"
  unfolding processComponentsInParallel_def process_batches_eq [OF assms] by simp

lemma processed_names:
  assumes "\<forall>c \<in> set configs. processComponent env vc se cache c \<noteq> None"
  shows "map r_name (map (the \<circ> processComponent env vc se cache) configs) = map c_name configs"
  using assms by (induction configs) (auto simp: processComponent_name)

text \<open>
  Claim C6. When every unit returns, \<^verbatim>\<open>processComponentsInParallel\<close> returns one result for
  each config, the result of that config, in the order of the input. The input is cut into
  batches of 8, the last one possibly shorter, and for every \<open>k\<close> the trace is the events of
  the first \<open>k\<close> batches followed by the events of the others: no unit of a later batch
  starts before the units of the earlier batches have finished and been awaited.
\<close>

theorem batches_process_every_config_once:
  assumes "\<forall>c \<in> set configs. processComponent env vc se cache c \<noteq> None"
  shows "\<exists>results trace.
           processComponentsInParallel env configs vc se cache = Some (results, trace) \<and>
           length results = length configs \<and>
           list_all2 (\<lambda>c r. processComponent env vc se cache c = Some r) configs results \<and>
           map r_name results = map c_name configs \<and>
           concat (chunks 8 configs) = configs \<and>
           (\<forall>b \<in> set (chunks 8 configs). 0 < length b \<and> length b \<le> 8) \<and>
           (\<forall>b \<in> set (butlast (chunks 8 configs)). length b = 8) \<and>
           (\<forall>k. trace = concat (map batch_events (take k (chunks 8 configs)))
                          @ concat (map batch_events (drop k (chunks 8 configs))))"
proof -
  let ?results = "map (the \<circ> processComponent env vc se cache) configs"
  let ?trace = "concat (map batch_events (chunks 8 configs))"
  have r: "processComponentsInParallel env configs vc se cache = Some (?results, ?trace)"
    using processComponentsInParallel_eq [OF assms] by (simp add: BATCH_SIZE_def)
  have l: "list_all2 (\<lambda>c r. processComponent env vc se cache c = Some r) configs ?results"
    using assms by (auto simp: list_all2_conv_all_nth)
  have t: "?trace = concat (map batch_events (take k (chunks 8 configs)))
                      @ concat (map batch_events (drop k (chunks 8 configs)))" for k
    by (metis append_take_drop_id concat_append map_append)
  have c: "concat (chunks 8 configs) = configs"
    by (rule concat_chunks) simp
  have s: "\<forall>b \<in> set (chunks 8 configs). 0 < length b \<and> length b \<le> 8"
    using chunks_sizes [of 8 _ configs] by simp
  have f: "\<forall>b \<in> set (butlast (chunks 8 configs)). length b = 8"
    using chunks_full [of 8 _ configs] by simp
  from r l t c s f processed_names [OF assms] show ?thesis
    by (intro exI [of _ ?results] exI [of _ ?trace]) simp
qed

text \<open>Nine components: a batch of eight and a batch of one, nine results.\<close>

theorem nine_widgets_two_batches:
  "\<exists>results trace.
     processComponentsInParallel demo_env (replicate 9 widget_config) [] [] empty_cache
       = Some (results, trace) \<and>
     length results = 9 \<and> map r_name results = replicate 9 ''Widget'' \<and>
     map length (chunks 8 (replicate 9 widget_config)) = [8, 1]"
proof -
  have "processComponent demo_env [] [] empty_cache widget_config \<noteq> None"
    by (rule generator_throws_returns) (simp add: demo_env_def)
  then have h: "\<forall>c \<in> set (replicate 9 widget_config).
             processComponent demo_env [] [] empty_cache c \<noteq> None"
    by simp
  have "map length (chunks 8 (replicate 9 widget_config)) = [8, 1]"
    by (simp add: chunks_step chunks_Nil)
  with batches_process_every_config_once [OF h] show ?thesis
    by (auto simp: widget_config_def)
qed

section \<open>Reusing cached schemas\<close>

text \<open>
  Claim C4. For the entry stored under the component's name: the entry is valid exactly
  when its version is the current version, its source hash is the hash of the source file
  and its story hash is the hash of the story file. \<^verbatim>\<open>processComponent\<close> reuses the stored
  schema exactly when the entry is valid and the lookup is not bypassed by
  \<^verbatim>\<open>--no-cache\<close>; what it reuses is the stored schema; and a result that is not reused,
  as after any mismatch, carries the schema regenerated from the extracted props.
\<close>

theorem cached_schema_reused_iff_valid:
  assumes "obj_get (cf_entries cache) (c_name config) = Some entry"
  shows "(isValid entry (hashFileContent env (sourcePath_of config))
            (hashFileContent env (storyPath_of config)) (CACHE_VERSION env) \<longleftrightarrow>
            cacheVersion entry = CACHE_VERSION env \<and>
            sourceHash entry = hashFileContent env (sourcePath_of config) \<and>
            storyHash entry = hashFileContent env (storyPath_of config)) \<and>
         ((\<exists>result. processComponent env vc se cache config = Some result \<and> r_cached result) \<longleftrightarrow>
            \<not> noCache (CLI_FLAGS env) \<and>
            isValid entry (hashFileContent env (sourcePath_of config))
              (hashFileContent env (storyPath_of config)) (CACHE_VERSION env)) \<and>
         (\<forall>result. processComponent env vc se cache config = Some result \<longrightarrow> r_cached result \<longrightarrow>
            r_schema result = metadata entry) \<and>
         (\<forall>result. processComponent env vc se cache config = Some result \<longrightarrow> \<not> r_cached result \<longrightarrow>
            (\<exists>props0. generatePropsFromType env config = Some props0 \<and>
               r_schema result = regenerated_schema env config se props0))"
proof -
  let ?valid = "isValid entry (hashFileContent env (sourcePath_of config))
                  (hashFileContent env (storyPath_of config)) (CACHE_VERSION env)"
  let ?lookup = "getCachedComponent (CACHE_VERSION env) (c_name config)
                   (hashFileContent env (sourcePath_of config))
                   (hashFileContent env (storyPath_of config)) cache (CLI_FLAGS env)"
  have g: "?lookup = (if \<not> noCache (CLI_FLAGS env) \<and> ?valid then Some (metadata entry) else None)"
    using assms by (simp add: getCachedComponent_def)
  have v: "?valid \<longleftrightarrow> cacheVersion entry = CACHE_VERSION env \<and>
            sourceHash entry = hashFileContent env (sourcePath_of config) \<and>
            storyHash entry = hashFileContent env (storyPath_of config)"
    by (simp add: isValid_def)
  have hit: "\<exists>result. processComponent env vc se cache config = Some result \<and> r_cached result"
    if "\<not> noCache (CLI_FLAGS env)" "?valid"
    using that g by (simp add: processComponent_def Let_def)
  have miss: "\<not> r_cached result \<and>
        (\<exists>props0. generatePropsFromType env config = Some props0 \<and>
               r_schema result = regenerated_schema env config se props0)"
    if "\<not> (\<not> noCache (CLI_FLAGS env) \<and> ?valid)"
      "processComponent env vc se cache config = Some result" for result
    using that g by (auto simp: processComponent_def Let_def split: option.splits)
  have reuse: "r_schema result = metadata entry"
    if "processComponent env vc se cache config = Some result" "r_cached result" for result
    using that g by (auto simp: processComponent_def Let_def split: option.splits if_splits)
  have regen: "\<exists>props0. generatePropsFromType env config = Some props0 \<and>
               r_schema result = regenerated_schema env config se props0"
    if "processComponent env vc se cache config = Some result" "\<not> r_cached result" for result
    using that g by (auto simp: processComponent_def Let_def split: option.splits if_splits)
  from v hit miss reuse regen show ?thesis by blast
qed

text \<open>
  On \<^verbatim>\<open>Widget\<close>: an entry with matching hashes and the current version is reused; the same
  entry under an older version is not.
\<close>

theorem widget_cache_hit_and_miss:
  "map_option r_cached (processComponent demo_env [] [] (widget_cache 1) widget_config) = Some True \<and>
   map_option r_cached (processComponent demo_env [] [] (widget_cache 0) widget_config) = Some False"
proof -
  have e: "obj_get (cf_entries (widget_cache v)) (c_name widget_config) = Some (widget_entry v)" for v
    by (simp add: widget_cache_def widget_config_def obj_get_def)
  have f: "\<not> noCache (CLI_FLAGS demo_env)"
    by (simp add: demo_env_def default_flags_def)
  have h: "sourceHash (widget_entry v) = hashFileContent demo_env (sourcePath_of widget_config)"
    "storyHash (widget_entry v) = hashFileContent demo_env (storyPath_of widget_config)"
    "cacheVersion (widget_entry v) = v" for v
    by (simp_all add: widget_entry_def demo_env_def sourcePath_of_def storyPath_of_def
        getSourceFile_def path_join_def join_paths_def normalize_path_def widget_config_def)
  have c: "CACHE_VERSION demo_env = 1"
    by (simp add: demo_env_def)
  have "processComponent demo_env [] [] (widget_cache 0) widget_config \<noteq> None"
    by (rule generator_throws_returns) (simp add: demo_env_def)
  then obtain r where r: "processComponent demo_env [] [] (widget_cache 0) widget_config = Some r"
    by blast
  from cached_schema_reused_iff_valid [OF e [of 1], of demo_env "[]" "[]"] f h [of 1] c
  have "\<exists>result. processComponent demo_env [] [] (widget_cache 1) widget_config = Some result \<and>
          r_cached result"
    by simp
  moreover from cached_schema_reused_iff_valid [OF e [of 0], of demo_env "[]" "[]"] f h [of 0] c r
  have "\<not> r_cached r"
    by auto
  ultimately show ?thesis
    using r by auto
qed

section \<open>The registry\<close>

lemma set_insert_by: "set (insert_by c x ys) = insert x (set ys)"
  by (induction ys) auto

lemma mset_insert_by: "mset (insert_by c x ys) = add_mset x (mset ys)"
  by (induction ys) auto

lemma mset_sort_by: "mset (sort_by c xs) = mset xs"
  unfolding sort_by_def by (induction xs) (simp_all add: mset_insert_by)

lemma set_sort_by: "set (sort_by c xs) = set xs"
  using mset_sort_by [of c xs] by (rule mset_eq_setD)

lemma sort_by_Cons: "sort_by c (x # xs) = insert_by c x (sort_by c xs)"
  by (simp add: sort_by_def)

text \<open>The sort is stable: elements that all compare as equal keep their order.\<close>

lemma insert_by_tie: "insert_by (\<lambda>a b. 0) x ys = x # ys"
  by (cases ys) simp_all

lemma sort_by_ties: "sort_by (\<lambda>a b. 0) xs = xs"
  by (induction xs) (simp_all add: sort_by_Cons insert_by_tie, simp add: sort_by_def)

text \<open>Sorting by a key and then taking the keys is sorting the keys.\<close>

lemma map_insert_by:
  "map f (insert_by (\<lambda>a b. c (f a) (f b)) x ys) = insert_by c (f x) (map f ys)"
  by (induction ys) auto

lemma map_sort_by: "map f (sort_by (\<lambda>a b. c (f a) (f b)) xs) = sort_by c (map f xs)"
  by (induction xs) (simp_all add: sort_by_Cons map_insert_by, simp add: sort_by_def)

text \<open>The sort looks at the comparison only between the elements of the list.\<close>

lemma insert_by_cong:
  "\<forall>y \<in> set ys. (c x y \<le> 0) = (c' x y \<le> 0) \<Longrightarrow> insert_by c x ys = insert_by c' x ys"
  by (induction ys) auto

lemma sort_by_cong:
  "\<forall>a \<in> set xs. \<forall>b \<in> set xs. (c a b \<le> 0) = (c' a b \<le> 0) \<Longrightarrow> sort_by c xs = sort_by c' xs"
proof (induction xs)
  case Nil
  show ?case by (simp add: sort_by_def)
next
  case (Cons x xs)
  then have "sort_by c xs = sort_by c' xs" by simp
  moreover from Cons.prems have "\<forall>y \<in> set (sort_by c' xs). (c x y \<le> 0) = (c' x y \<le> 0)"
    by (simp add: set_sort_by)
  ultimately show ?case
    by (simp add: sort_by_Cons insert_by_cong)
qed

lemma sorted_insert_by:
  assumes sym: "\<And>a b. c a b \<le> 0 \<longleftrightarrow> 0 \<le> c b a"
    and trans: "\<And>a b d. c a b \<le> 0 \<Longrightarrow> c b d \<le> 0 \<Longrightarrow> c a d \<le> 0"
    and "sorted_wrt (\<lambda>a b. c a b \<le> 0) ys"
  shows "sorted_wrt (\<lambda>a b. c a b \<le> 0) (insert_by c x ys)"
  using assms(3)
proof (induction ys)
  case Nil
  then show ?case by simp
next
  case (Cons y ys)
  show ?case
  proof (cases "c x y \<le> 0")
    case True
    have "c x z \<le> 0" if "z \<in> set ys" for z
      using Cons.prems that trans [OF True] by auto
    with True Cons.prems show ?thesis by auto
  next
    case False
    then have "c y x \<le> 0" using sym [of y x] by simp
    with False Cons show ?thesis by (auto simp: set_insert_by)
  qed
qed

lemma sorted_sort_by:
  assumes "\<And>a b. c a b \<le> 0 \<longleftrightarrow> 0 \<le> c b a"
    and "\<And>a b d. c a b \<le> 0 \<Longrightarrow> c b d \<le> 0 \<Longrightarrow> c a d \<le> 0"
  shows "sorted_wrt (\<lambda>a b. c a b \<le> 0) (sort_by c xs)"
  unfolding sort_by_def
  by (induction xs) (simp_all add: sorted_insert_by [OF assms])

lemma ordered_sort_by:
  assumes "consistent_comparator cmp"
  shows "ordered_by cmp (sort_by cmp names)"
  unfolding ordered_by_def
  using assms by (intro sorted_sort_by) (auto simp: consistent_comparator_def)

text \<open>
  Two lists in the order of a consistent comparison, with the same elements as often, are
  the same list when the comparison separates their elements.
\<close>

lemma ordered_unique:
  assumes "consistent_comparator cmp" "separates cmp (set xs)"
    "ordered_by cmp xs" "ordered_by cmp ys" "mset xs = mset ys"
  shows "xs = ys"
  using assms(2-)
proof (induction xs arbitrary: ys)
  case Nil
  then show ?case by simp
next
  case (Cons x xs)
  from Cons.prems(4) obtain y ys' where ys: "ys = y # ys'"
    by (cases ys) auto
  have sets: "set ys = set (x # xs)"
    using Cons.prems(4) by (metis set_mset_mset)
  have anti: "a = b" if "cmp a b \<le> 0" "cmp b a \<le> 0" "a \<in> set (x # xs)" "b \<in> set (x # xs)" for a b
  proof -
    from assms(1) have "cmp b a \<le> 0 \<longleftrightarrow> 0 \<le> cmp a b"
      unfolding consistent_comparator_def by blast
    with that(2) have "0 \<le> cmp a b" by blast
    with that(1) have "cmp a b = 0" by simp
    with Cons.prems(1) that(3,4) show ?thesis
      unfolding separates_def by blast
  qed
  have "x = y"
  proof (rule ccontr)
    assume ne: "x \<noteq> y"
    have "y \<in> set ys" using ys by simp
    then have yin: "y \<in> set (x # xs)" unfolding sets .
    have "x \<in> set (x # xs)" by simp
    then have "x \<in> set ys" unfolding sets [symmetric] .
    with ne ys have "x \<in> set ys'" by simp
    with Cons.prems(3) ys have 1: "cmp y x \<le> 0" by (simp add: ordered_by_def)
    from yin ne have "y \<in> set xs" by simp
    with Cons.prems(2) have "cmp x y \<le> 0" by (simp add: ordered_by_def)
    from anti [OF this 1 _ yin] ne show False by simp
  qed
  moreover have "xs = ys'"
  proof (rule Cons.IH)
    show "separates cmp (set xs)"
      using Cons.prems(1) by (simp add: separates_def)
    show "ordered_by cmp xs" using Cons.prems(2) by (simp add: ordered_by_def)
    show "ordered_by cmp ys'" using Cons.prems(3) ys by (simp add: ordered_by_def)
    show "mset xs = mset ys'" using Cons.prems(4) ys \<open>x = y\<close> by simp
  qed
  ultimately show ?case using ys by simp
qed

lemma code_compare_sym: "code_compare a b \<le> 0 \<longleftrightarrow> 0 \<le> code_compare b a"
  by (induction a b rule: code_compare.induct) auto

lemma code_compare_eq: "code_compare a b = 0 \<Longrightarrow> a = b"
  by (induction a b rule: code_compare.induct) (auto split: if_splits)

lemma code_compare_trans:
  "code_compare a b \<le> 0 \<Longrightarrow> code_compare b c \<le> 0 \<Longrightarrow> code_compare a c \<le> 0"
proof (induction a arbitrary: b c)
  case Nil
  then show ?case by (cases c) auto
next
  case (Cons x xs)
  then obtain y ys where b: "b = y # ys" by (cases b) auto
  with Cons.prems obtain z zs where c: "c = z # zs" by (cases c) auto
  from Cons.prems Cons.IH [of ys zs] show ?case
    unfolding b c by (auto split: if_splits)
qed

lemma code_compare_consistent: "consistent_comparator code_compare"
  unfolding consistent_comparator_def
  using code_compare_sym code_compare_trans by blast

lemma code_compare_separates: "separates code_compare S"
  unfolding separates_def using code_compare_eq by blast

lemma components_fold:
  "obj_keys (a_components (foldl add_component a rs)) = obj_keys (foldl (\<lambda>ob r. obj_set ob (r_name r) (r_schema r)) (a_components a) rs)
   \<and> bt_component (a_byType (foldl add_component a rs)) = bt_component (a_byType a) @ map r_name rs
   \<and> bt_block (a_byType (foldl add_component a rs)) = bt_block (a_byType a)"
  by (induction rs arbitrary: a) (simp_all add: add_component_def)

lemma keys_fold_set:
  "set (obj_keys (foldl (\<lambda>ob r. obj_set ob (f r) (g r)) ob rs)) = set (obj_keys ob) \<union> f ` set rs"
  by (induction rs arbitrary: ob) (auto simp: keys_obj_set)

lemma add_blocks_Some:
  assumes "\<forall>r \<in> set rs. r_name r \<in> c_name ` set BLOCKS"
  shows "\<exists>a'. add_blocks env BLOCKS a rs = Some a' \<and> a_components a' = a_components a \<and>
           bt_component (a_byType a') = bt_component (a_byType a) \<and>
           bt_block (a_byType a') = bt_block (a_byType a) @ map r_name rs"
  using assms
proof (induction rs arbitrary: a)
  case Nil
  then show ?case by simp
next
  case (Cons r rs)
  then have "r_name r \<in> c_name ` set BLOCKS" by simp
  then obtain b where f: "find (\<lambda>b. c_name b = r_name r) BLOCKS = Some b"
    by (cases "find (\<lambda>b. c_name b = r_name r) BLOCKS") (auto simp: find_None_iff)
  then obtain a1 where a1: "add_block env BLOCKS a r = Some a1"
    "a_components a1 = a_components a" "bt_component (a_byType a1) = bt_component (a_byType a)"
    "bt_block (a_byType a1) = bt_block (a_byType a) @ [r_name r]"
    by (simp add: add_block_def Let_def)
  from Cons.prems have "\<forall>r \<in> set rs. r_name r \<in> c_name ` set BLOCKS" by simp
  from Cons.IH [OF this, of a1] a1 show ?case by auto
qed


lemma processComponent_variantConstants:
  "processComponent env vc se cache c = processComponent env vc' se cache c"
  by (simp add: processComponent_def)

lemma add_input_area_facts:
  "bt_component (a_byType (add_input_area env a)) = bt_component (a_byType a)"
  "bt_block (a_byType (add_input_area env a)) = bt_block (a_byType a)"
  "obj_get (COMPONENT_STYLING_METADATA env) ''InputArea'' = Some st \<Longrightarrow>
     obj_get (a_components (add_input_area env a)) ''InputArea'' = Some (input_area_schema st)"
  "obj_get (COMPONENT_STYLING_METADATA env) ''InputArea'' = Some st \<Longrightarrow>
     set (obj_keys (a_components (add_input_area env a))) = insert ''InputArea'' (set (obj_keys (a_components a)))"
  "obj_get (COMPONENT_STYLING_METADATA env) ''InputArea'' = None \<Longrightarrow>
     a_components (add_input_area env a) = a_components a"
  by (simp_all add: add_input_area_def obj_get_obj_set keys_obj_set split: option.splits)

lemma generateRegistry_returns:
  assumes "\<forall>c \<in> set (COMPONENTS @ BLOCKS). processComponent env [] se cache c \<noteq> None"
  shows "\<exists>g (rs :: ProcessComponentResult list).
           generateRegistry env COMPONENTS BLOCKS cache se = Returned g \<and>
           map r_name rs = map c_name (COMPONENTS @ BLOCKS) \<and>
           byName (reg_search (registry g))
             = map r_name (sort_by (\<lambda>a b. localeCompare env (r_name a) (r_name b)) rs) \<and>
           bt_component (byType (reg_search (registry g))) = map c_name COMPONENTS \<and>
           bt_block (byType (reg_search (registry g))) = map c_name BLOCKS \<and>
           (\<forall>st. obj_get (COMPONENT_STYLING_METADATA env) ''InputArea'' = Some st \<longrightarrow>
              obj_get (reg_components (registry g)) ''InputArea'' = Some (input_area_schema st) \<and>
              set (obj_keys (reg_components (registry g)))
                = insert ''InputArea'' (c_name ` set COMPONENTS)) \<and>
           (obj_get (COMPONENT_STYLING_METADATA env) ''InputArea'' = None \<longrightarrow>
              set (obj_keys (reg_components (registry g))) = c_name ` set COMPONENTS)"
proof -
  let ?vc = "variant_constants env (COMPONENTS @ BLOCKS)"
  let ?proc = "processComponent env ?vc se cache"
  let ?cr = "map (the \<circ> ?proc) COMPONENTS" and ?br = "map (the \<circ> ?proc) BLOCKS"
  have all: "\<forall>c \<in> set (COMPONENTS @ BLOCKS). ?proc c \<noteq> None"
    using assms processComponent_variantConstants [of env ?vc se cache _ "[]"] by simp
  then have c: "\<forall>c \<in> set COMPONENTS. ?proc c \<noteq> None" and b: "\<forall>c \<in> set BLOCKS. ?proc c \<noteq> None"
    by simp_all
  have pc: "processComponentsInParallel env COMPONENTS ?vc se cache
              = Some (?cr, concat (map batch_events (chunks BATCH_SIZE COMPONENTS)))"
    by (rule processComponentsInParallel_eq [OF c])
  have pb: "processComponentsInParallel env BLOCKS ?vc se cache
              = Some (?br, concat (map batch_events (chunks BATCH_SIZE BLOCKS)))"
    by (rule processComponentsInParallel_eq [OF b])
  have nc: "map r_name ?cr = map c_name COMPONENTS" by (rule processed_names [OF c])
  have nb: "map r_name ?br = map c_name BLOCKS" by (rule processed_names [OF b])
  let ?a0 = "\<lparr>a_components = [], a_blocks = [], a_byCategory = [],
               a_byType = \<lparr>bt_component = [], bt_block = []\<rparr>, a_componentColors = [],
               a_newCache = \<lparr>cf_version = CACHE_VERSION env, cf_entries = []\<rparr>\<rparr>"
  let ?a1 = "foldl add_component ?a0 ?cr"
  have "\<forall>r \<in> set ?br. r_name r \<in> c_name ` set BLOCKS"
  proof
    fix r assume "r \<in> set ?br"
    then have "r_name r \<in> set (map r_name ?br)" by (simp del: map_map)
    then show "r_name r \<in> c_name ` set BLOCKS" unfolding nb by simp
  qed
  from add_blocks_Some [OF this, of env ?a1] obtain a2 where
    a2: "add_blocks env BLOCKS ?a1 ?br = Some a2" "a_components a2 = a_components ?a1"
      "bt_component (a_byType a2) = bt_component (a_byType ?a1)"
      "bt_block (a_byType a2) = bt_block (a_byType ?a1) @ map r_name ?br"
    by blast
  let ?a3 = "add_input_area env a2"
  define rs where "rs = ?cr @ ?br"
  define g where "g = \<lparr>registry = \<lparr>reg_version = ''1.0.0'', reg_components = a_components ?a3,
                  reg_blocks = a_blocks ?a3,
                  reg_search = \<lparr>byCategory = a_byCategory ?a3,
                    byName = map r_name (sort_by (\<lambda>a b. localeCompare env (r_name a) (r_name b)) rs),
                    byType = a_byType ?a3\<rparr>\<rparr>,
             componentColors = a_componentColors ?a3, savedCache = a_newCache a2\<rparr>"
  have g: "generateRegistry env COMPONENTS BLOCKS cache se = Returned g"
    by (simp add: generateRegistry_def Let_def pc pb a2(1) g_def rs_def)
  have k1: "set (obj_keys (a_components ?a1)) = c_name ` set COMPONENTS"
  proof -
    have "set (obj_keys (a_components ?a1)) = r_name ` set ?cr"
      using components_fold [of ?a0 ?cr] keys_fold_set [of r_name r_schema "[]" ?cr]
      by (simp add: obj_keys_def)
    also have "\<dots> = set (map r_name ?cr)" by (simp del: map_map)
    finally show ?thesis unfolding nc by simp
  qed
  have t1: "bt_component (a_byType ?a1) = map c_name COMPONENTS" "bt_block (a_byType ?a1) = []"
    using components_fold [of ?a0 ?cr] nc by simp_all
  have n: "map r_name rs = map c_name (COMPONENTS @ BLOCKS)"
    using nc nb by (simp add: rs_def)
  have b1: "byName (reg_search (registry g))
              = map r_name (sort_by (\<lambda>a b. localeCompare env (r_name a) (r_name b)) rs)"
    by (simp add: g_def)
  have b2: "bt_component (byType (reg_search (registry g))) = map c_name COMPONENTS"
    by (simp add: g_def add_input_area_facts a2 t1)
  have b3: "bt_block (byType (reg_search (registry g))) = map c_name BLOCKS"
    by (simp add: g_def add_input_area_facts a2 t1 nb del: map_map)
  have b4: "\<forall>st. obj_get (COMPONENT_STYLING_METADATA env) ''InputArea'' = Some st \<longrightarrow>
              obj_get (reg_components (registry g)) ''InputArea'' = Some (input_area_schema st) \<and>
              set (obj_keys (reg_components (registry g)))
                = insert ''InputArea'' (c_name ` set COMPONENTS)"
    by (simp add: g_def add_input_area_facts a2 k1)
  have b5: "obj_get (COMPONENT_STYLING_METADATA env) ''InputArea'' = None \<longrightarrow>
              set (obj_keys (reg_components (registry g))) = c_name ` set COMPONENTS"
    by (simp add: g_def add_input_area_facts a2 k1)
  show ?thesis
    by (rule exI [where x = g], rule exI [where x = rs]) (intro conjI g n b1 b2 b3 b4 b5)
qed

lemma byName_names:
  "mset (map r_name (sort_by c rs)) = mset (map r_name rs)"
  by (simp add: mset_sort_by)

lemma generateRegistry_byName:
  assumes "\<forall>c \<in> set (COMPONENTS @ BLOCKS). processComponent env [] se cache c \<noteq> None"
  shows "\<exists>g. generateRegistry env COMPONENTS BLOCKS cache se = Returned g \<and>
           byName (reg_search (registry g))
             = sort_by (localeCompare env) (map c_name (COMPONENTS @ BLOCKS)) \<and>
           (\<forall>st. obj_get (COMPONENT_STYLING_METADATA env) ''InputArea'' = Some st \<longrightarrow>
              set (obj_keys (reg_components (registry g)))
                = insert ''InputArea'' (c_name ` set COMPONENTS))"
proof -
  obtain g and rs :: "ProcessComponentResult list"
    where g: "generateRegistry env COMPONENTS BLOCKS cache se = Returned g"
      and n: "map r_name rs = map c_name (COMPONENTS @ BLOCKS)"
      and b: "byName (reg_search (registry g))
                = map r_name (sort_by (\<lambda>a b. localeCompare env (r_name a) (r_name b)) rs)"
      and t: "bt_component (byType (reg_search (registry g))) = map c_name COMPONENTS"
      and s: "\<forall>st. obj_get (COMPONENT_STYLING_METADATA env) ''InputArea'' = Some st \<longrightarrow>
              obj_get (reg_components (registry g)) ''InputArea'' = Some (input_area_schema st) \<and>
              set (obj_keys (reg_components (registry g)))
                = insert ''InputArea'' (c_name ` set COMPONENTS)"
    using generateRegistry_returns [OF assms] by (elim exE conjE) (rule that; assumption)
  have b': "byName (reg_search (registry g))
              = sort_by (localeCompare env) (map c_name (COMPONENTS @ BLOCKS))"
    unfolding b map_sort_by n by (rule refl)
  have s': "\<forall>st. obj_get (COMPONENT_STYLING_METADATA env) ''InputArea'' = Some st \<longrightarrow>
              set (obj_keys (reg_components (registry g)))
                = insert ''InputArea'' (c_name ` set COMPONENTS)"
    using s by blast
  show ?thesis
    by (rule exI [where x = g]) (intro conjI g b' s')
qed

text \<open>
  Claim C2, as stated, fails. With styling metadata for \<^verbatim>\<open>InputArea\<close>, the components of the
  registry are \<^verbatim>\<open>Widget\<close>, \<^verbatim>\<open>Button\<close> and the synthetic \<^verbatim>\<open>InputArea\<close>, and \<^verbatim>\<open>search.byName\<close> holds
  \<^verbatim>\<open>Button\<close> and \<^verbatim>\<open>Widget\<close> only: the source leaves the synthetic entry out of the index.
\<close>

theorem byName_omits_synthetic_component:
  "map_option (set \<circ> obj_keys \<circ> reg_components \<circ> registry)
     (returned (generateRegistry demo_env [widget_config, button_config] [] empty_cache []))
     = Some {''Widget'', ''Button'', ''InputArea''} \<and>
   map_option (byName \<circ> reg_search \<circ> registry)
     (returned (generateRegistry demo_env [widget_config, button_config] [] empty_cache []))
     = Some [''Button'', ''Widget'']"
proof -
  have r: "processComponent demo_env [] [] empty_cache c \<noteq> None" for c
    by (rule generator_throws_returns) (simp add: demo_env_def)
  then have h: "\<forall>c \<in> set ([widget_config, button_config] @ []).
                  processComponent demo_env [] [] empty_cache c \<noteq> None"
    by blast
  have s: "obj_get (COMPONENT_STYLING_METADATA demo_env) ''InputArea'' = Some [(''height'', ''auto'')]"
    by (simp add: demo_env_def obj_get_def)
  obtain g where
    g: "generateRegistry demo_env [widget_config, button_config] [] empty_cache [] = Returned g"
    and b: "byName (reg_search (registry g))
              = sort_by (localeCompare demo_env) (map c_name ([widget_config, button_config] @ []))"
    and k: "\<forall>st. obj_get (COMPONENT_STYLING_METADATA demo_env) ''InputArea'' = Some st \<longrightarrow>
              set (obj_keys (reg_components (registry g)))
                = insert ''InputArea'' (c_name ` set [widget_config, button_config])"
    using generateRegistry_byName [OF h] by (elim exE conjE) (rule that; assumption)
  from k s have "set (obj_keys (reg_components (registry g)))
                   = insert ''InputArea'' (c_name ` set [widget_config, button_config])"
    by blast
  then have 1: "set (obj_keys (reg_components (registry g))) = {''Widget'', ''Button'', ''InputArea''}"
    by (simp add: widget_config_def button_config_def insert_commute)
  have 2: "byName (reg_search (registry g)) = [''Button'', ''Widget'']"
    unfolding b by (simp add: widget_config_def button_config_def demo_env_def sort_by_def)
  show ?thesis
    unfolding g using 1 2 by simp
qed

text \<open>
  Claim C2, amended. When every unit returns, \<^verbatim>\<open>search.byName\<close> is the names of the discovered
  components followed by those of the discovered blocks, sorted by \<^verbatim>\<open>localeCompare\<close> with the
  stable sort: it holds exactly the discovered names, each as often as given. When
  \<^verbatim>\<open>localeCompare\<close> is a consistent comparison the list is in its order, and when it also
  separates the discovered names the list is the only one in that order, whatever the
  order of discovery and processing. When \<^verbatim>\<open>localeCompare\<close> puts the discovered names in the
  order of the lexicographic comparison, the list is the lexicographically sorted list of
  the discovered names, and the only one.
\<close>

theorem byName_is_discovered_names_sorted:
  assumes "\<forall>c \<in> set (COMPONENTS @ BLOCKS). processComponent env [] se cache c \<noteq> None"
  shows "\<exists>g. generateRegistry env COMPONENTS BLOCKS cache se = Returned g \<and>
           byName (reg_search (registry g))
             = sort_by (localeCompare env) (map c_name (COMPONENTS @ BLOCKS)) \<and>
           mset (byName (reg_search (registry g))) = mset (map c_name (COMPONENTS @ BLOCKS)) \<and>
           (consistent_comparator (localeCompare env) \<longrightarrow>
              ordered_by (localeCompare env) (byName (reg_search (registry g))) \<and>
              (separates (localeCompare env) (set (map c_name (COMPONENTS @ BLOCKS))) \<longrightarrow>
                 (\<forall>names. ordered_by (localeCompare env) names \<and>
                           mset names = mset (map c_name (COMPONENTS @ BLOCKS)) \<longrightarrow>
                           names = byName (reg_search (registry g))))) \<and>
           (agree_on (set (map c_name (COMPONENTS @ BLOCKS))) (localeCompare env) code_compare \<longrightarrow>
              byName (reg_search (registry g))
                = sort_by code_compare (map c_name (COMPONENTS @ BLOCKS)) \<and>
              ordered_by code_compare (byName (reg_search (registry g))) \<and>
              (\<forall>names. ordered_by code_compare names \<and>
                        mset names = mset (map c_name (COMPONENTS @ BLOCKS)) \<longrightarrow>
                        names = byName (reg_search (registry g))))"
proof -
  let ?names = "map c_name (COMPONENTS @ BLOCKS)"
  let ?cmp = "localeCompare env"
  obtain g where
    g: "generateRegistry env COMPONENTS BLOCKS cache se = Returned g"
    and b: "byName (reg_search (registry g)) = sort_by ?cmp ?names"
    using generateRegistry_byName [OF assms] by (elim exE conjE) (rule that; assumption)
  let ?byName = "byName (reg_search (registry g))"
  have m: "mset ?byName = mset ?names"
    unfolding b by (rule mset_sort_by)
  have o: "ordered_by ?cmp ?byName" if "consistent_comparator ?cmp"
    unfolding b by (rule ordered_sort_by [OF that])
  have u: "names = ?byName"
    if "consistent_comparator ?cmp" "separates ?cmp (set ?names)"
      "ordered_by ?cmp names \<and> mset names = mset ?names" for names
  proof (rule ordered_unique [OF that(1) _ _ o [OF that(1)]])
    from that(3) have "set names = set ?names" by (metis set_mset_mset)
    with that(2) show "separates ?cmp (set names)" by simp
    from that(3) show "ordered_by ?cmp names" by blast
    from that(3) m show "mset names = mset ?byName" by simp
  qed
  have l: "?byName = sort_by code_compare ?names" if "agree_on (set ?names) ?cmp code_compare"
    unfolding b using that by (intro sort_by_cong) (simp add: agree_on_def)
  have lo: "ordered_by code_compare ?byName" if "agree_on (set ?names) ?cmp code_compare"
    unfolding l [OF that] by (rule ordered_sort_by [OF code_compare_consistent])
  have lu: "names = ?byName"
    if "agree_on (set ?names) ?cmp code_compare"
      "ordered_by code_compare names \<and> mset names = mset ?names" for names
  proof (rule ordered_unique [OF code_compare_consistent code_compare_separates _ lo [OF that(1)]])
    from that(2) show "ordered_by code_compare names" by blast
    from that(2) m show "mset names = mset ?byName" by simp
  qed
  show ?thesis
  proof (intro exI [where x = g] conjI impI allI)
    show "generateRegistry env COMPONENTS BLOCKS cache se = Returned g" by (rule g)
    show "?byName = sort_by ?cmp ?names" by (rule b)
    show "mset ?byName = mset ?names" by (rule m)
    show "ordered_by ?cmp ?byName" if "consistent_comparator ?cmp"
      by (rule o [OF that])
    show "names = ?byName"
      if "consistent_comparator ?cmp" "separates ?cmp (set ?names)"
        "ordered_by ?cmp names \<and> mset names = mset ?names" for names
      by (rule u [OF that])
    show "?byName = sort_by code_compare ?names" if "agree_on (set ?names) ?cmp code_compare"
      by (rule l [OF that])
    show "ordered_by code_compare ?byName" if "agree_on (set ?names) ?cmp code_compare"
      by (rule lo [OF that])
    show "names = ?byName"
      if "agree_on (set ?names) ?cmp code_compare"
        "ordered_by code_compare names \<and> mset names = mset ?names" for names
      by (rule lu [OF that])
  qed
qed

text \<open>
  Two components discovered as \<^verbatim>\<open>Widget\<close>, \<^verbatim>\<open>Button\<close>, with the lexicographic comparison in
  the place of \<^verbatim>\<open>localeCompare\<close>, are indexed as \<^verbatim>\<open>Button\<close>, \<^verbatim>\<open>Widget\<close>.
\<close>

theorem byName_button_widget:
  "\<exists>g. generateRegistry demo_env [widget_config, button_config] [] empty_cache [] = Returned g \<and>
     byName (reg_search (registry g)) = [''Button'', ''Widget''] \<and>
     ordered_by code_compare (byName (reg_search (registry g)))"
proof -
  let ?names = "map c_name ([widget_config, button_config] @ [])"
  have r: "processComponent demo_env [] [] empty_cache c \<noteq> None" for c
    by (rule generator_throws_returns) (simp add: demo_env_def)
  then have h: "\<forall>c \<in> set ([widget_config, button_config] @ []).
                  processComponent demo_env [] [] empty_cache c \<noteq> None"
    by blast
  have c: "consistent_comparator (localeCompare demo_env)"
    using code_compare_consistent by (simp add: demo_env_def)
  have p: "separates (localeCompare demo_env) (set ?names)"
    using code_compare_separates by (simp add: demo_env_def)
  have a: "agree_on (set ?names) (localeCompare demo_env) code_compare"
    by (simp add: agree_on_def demo_env_def)
  have o: "ordered_by (localeCompare demo_env) [''Button'', ''Widget'']"
    by (simp add: ordered_by_def demo_env_def)
  have m: "mset [''Button'', ''Widget''] = mset ?names"
    by (simp add: widget_config_def button_config_def)
  from byName_is_discovered_names_sorted [OF h] obtain g where
    g: "generateRegistry demo_env [widget_config, button_config] [] empty_cache [] = Returned g"
    and u: "consistent_comparator (localeCompare demo_env) \<longrightarrow>
              ordered_by (localeCompare demo_env) (byName (reg_search (registry g))) \<and>
              (separates (localeCompare demo_env) (set ?names) \<longrightarrow>
                 (\<forall>names. ordered_by (localeCompare demo_env) names \<and> mset names = mset ?names \<longrightarrow>
                           names = byName (reg_search (registry g))))"
    and l: "agree_on (set ?names) (localeCompare demo_env) code_compare \<longrightarrow>
              byName (reg_search (registry g)) = sort_by code_compare ?names \<and>
              ordered_by code_compare (byName (reg_search (registry g))) \<and>
              (\<forall>names. ordered_by code_compare names \<and> mset names = mset ?names \<longrightarrow>
                        names = byName (reg_search (registry g)))"
    by (elim exE conjE) (rule that; assumption)
  from u c p have "\<forall>names. ordered_by (localeCompare demo_env) names \<and> mset names = mset ?names \<longrightarrow>
                           names = byName (reg_search (registry g))"
    by blast
  with o m have e: "[''Button'', ''Widget''] = byName (reg_search (registry g))"
    by blast
  from l a have lo: "ordered_by code_compare (byName (reg_search (registry g)))"
    by blast
  show ?thesis
    by (rule exI [where x = g]) (intro conjI g e [symmetric] lo)
qed

text \<open>
  Claim C9. When the styling metadata has an entry for \<^verbatim>\<open>InputArea\<close> and no discovered
  component or block has that name, the components of the registry hold the synthetic
  \<^verbatim>\<open>InputArea\<close> schema, whose props are empty; the name is neither in \<^verbatim>\<open>search.byName\<close> nor in
  \<^verbatim>\<open>search.byType.component\<close>, and the names of \<^verbatim>\<open>search.byType.component\<close> are a proper subset
  of the keys of the components.
\<close>

theorem input_area_is_synthetic_and_unindexed:
  assumes "\<forall>c \<in> set (COMPONENTS @ BLOCKS). processComponent env [] se cache c \<noteq> None"
    and "obj_get (COMPONENT_STYLING_METADATA env) ''InputArea'' = Some styling"
    and "''InputArea'' \<notin> c_name ` set (COMPONENTS @ BLOCKS)"
  shows "\<exists>g. generateRegistry env COMPONENTS BLOCKS cache se = Returned g \<and>
           obj_get (reg_components (registry g)) ''InputArea'' = Some (input_area_schema styling) \<and>
           cs_props (input_area_schema styling) = [] \<and>
           ''InputArea'' \<notin> set (byName (reg_search (registry g))) \<and>
           ''InputArea'' \<notin> set (bt_component (byType (reg_search (registry g)))) \<and>
           set (bt_component (byType (reg_search (registry g))))
             \<subset> set (obj_keys (reg_components (registry g)))"
proof -
  obtain g and rs :: "ProcessComponentResult list"
    where g: "generateRegistry env COMPONENTS BLOCKS cache se = Returned g"
      and n: "map r_name rs = map c_name (COMPONENTS @ BLOCKS)"
      and b: "byName (reg_search (registry g))
                = map r_name (sort_by (\<lambda>a b. localeCompare env (r_name a) (r_name b)) rs)"
      and t: "bt_component (byType (reg_search (registry g))) = map c_name COMPONENTS"
      and s: "\<forall>st. obj_get (COMPONENT_STYLING_METADATA env) ''InputArea'' = Some st \<longrightarrow>
              obj_get (reg_components (registry g)) ''InputArea'' = Some (input_area_schema st) \<and>
              set (obj_keys (reg_components (registry g)))
                = insert ''InputArea'' (c_name ` set COMPONENTS)"
    using generateRegistry_returns [OF assms(1)] by (elim exE conjE) (rule that; assumption)
  from s assms(2)
  have i: "obj_get (reg_components (registry g)) ''InputArea'' = Some (input_area_schema styling)"
    and k: "set (obj_keys (reg_components (registry g)))
              = insert ''InputArea'' (c_name ` set COMPONENTS)"
    by simp_all
  have "mset (byName (reg_search (registry g))) = mset (map c_name (COMPONENTS @ BLOCKS))"
    unfolding b byName_names n by (rule refl)
  then have "set (byName (reg_search (registry g))) = set (map c_name (COMPONENTS @ BLOCKS))"
    by (rule mset_eq_setD)
  with assms(3) have nb: "''InputArea'' \<notin> set (byName (reg_search (registry g)))"
    by (simp only: set_map) blast
  from assms(3) have nc: "''InputArea'' \<notin> c_name ` set COMPONENTS"
    by (simp only: set_append image_Un Un_iff) blast
  then have nt: "''InputArea'' \<notin> set (bt_component (byType (reg_search (registry g))))"
    unfolding t by simp
  have ss: "set (bt_component (byType (reg_search (registry g))))
          \<subset> set (obj_keys (reg_components (registry g)))"
    unfolding t k using nc by (simp add: psubset_insert_iff)
  have e: "cs_props (input_area_schema styling) = []"
    by (simp add: input_area_schema_def)
  show ?thesis
    by (rule exI [where x = g]) (intro conjI g i e nb nt ss)
qed

text \<open>With \<^verbatim>\<open>Widget\<close> and \<^verbatim>\<open>Button\<close> discovered and styling metadata for \<^verbatim>\<open>InputArea\<close>.\<close>

theorem input_area_example:
  "\<exists>g. generateRegistry demo_env [widget_config, button_config] [] empty_cache [] = Returned g \<and>
     map_option cs_props (obj_get (reg_components (registry g)) ''InputArea'') = Some [] \<and>
     ''InputArea'' \<notin> set (byName (reg_search (registry g))) \<and>
     ''InputArea'' \<notin> set (bt_component (byType (reg_search (registry g))))"
proof -
  have r: "processComponent demo_env [] [] empty_cache c \<noteq> None" for c
    by (rule generator_throws_returns) (simp add: demo_env_def)
  then have h: "\<forall>c \<in> set ([widget_config, button_config] @ []).
                  processComponent demo_env [] [] empty_cache c \<noteq> None"
    by blast
  have s: "obj_get (COMPONENT_STYLING_METADATA demo_env) ''InputArea'' = Some [(''height'', ''auto'')]"
    by (simp add: demo_env_def obj_get_def)
  have n: "''InputArea'' \<notin> c_name ` set ([widget_config, button_config] @ [])"
    by (simp add: widget_config_def button_config_def)
  from input_area_is_synthetic_and_unindexed [OF h s n] obtain g where
    "generateRegistry demo_env [widget_config, button_config] [] empty_cache [] = Returned g"
    "obj_get (reg_components (registry g)) ''InputArea''
       = Some (input_area_schema [(''height'', ''auto'')])"
    "cs_props (input_area_schema [(''height'', ''auto'')]) = []"
    "''InputArea'' \<notin> set (byName (reg_search (registry g)))"
    "''InputArea'' \<notin> set (bt_component (byType (reg_search (registry g))))"
    by (elim exE conjE) (rule that; assumption)
  then show ?thesis
    by (intro exI [where x = g] conjI) simp_all
qed

section \<open>The styles build\<close>

text \<open>
  Claim C8. When the statements before the compilation raise nothing and the Tailwind CLI
  throws, the script ends with exit code 1; the last thing it does is print the failure
  with the underlying error, right after invoking the CLI, and no later statement runs.
\<close>

theorem css_compile_failure_exits_nonzero:
  assumes "before_compile w = (fx, None)"
    and "execSync w (tailwind_command w) = Some error"
  shows "styles_build w = (fx @ [Exec (tailwind_command w), FailedToCompile error], Exited 1)"
  using assms by (simp add: styles_build_def then_do_def compile_standalone_def)

theorem failing_tailwind_exits_1:
  "snd (styles_build failing_tailwind) = Exited 1 \<and>
   last (fst (styles_build failing_tailwind)) = FailedToCompile ''Command failed: npx tailwindcss''"
proof -
  obtain fx where b: "before_compile failing_tailwind = (fx, None)"
    by (simp add: before_compile_def then_do_def ensure_dist_def cssFiles_def copy_css_file_def
        do_copy_def say_def failing_tailwind_def Let_def)
  have e: "execSync failing_tailwind (tailwind_command failing_tailwind)
             = Some ''Command failed: npx tailwindcss''"
    by (simp add: failing_tailwind_def)
  show ?thesis
    unfolding css_compile_failure_exits_nonzero [OF b e] by simp
qed

end
